theory Spec2Isabelle
  imports Complex_Main "HOL-Library.Word"
begin

unbundle bit_operations_syntax

section \<open>The prefetch stressor of stress-ng: data model\<close>

text \<open>
  The embedding follows \<^verbatim>\<open>stress-prefetch.c\<close>. Conventions:
  \<^item> a pointer is the byte address it holds (a \<open>nat\<close>; user-space addresses and sizes are
    far below \<open>2 ^ 64\<close>, \<open>size_t\<close> is the 64-bit one of an LP64 build); adding \<open>n\<close> to a
    \<^verbatim>\<open>uint64_t *\<close> advances the address by \<open>8 * n\<close> bytes (\<open>ptr_add\<close>);
  \<^item> the mapped memory is a store from the byte address of a 64-bit cell to its value; every
    access of the program is at \<open>l3_data + 8 * k\<close>, so cells never overlap;
  \<^item> \<^verbatim>\<open>uint32_t\<close> and \<^verbatim>\<open>uint64_t\<close> values whose arithmetic wraps are \<open>32 word\<close> and
    \<open>64 word\<close>;
  \<^item> a \<^verbatim>\<open>double\<close> is a \<open>real\<close>. The first model of the statistics computes sums and
    quotients exactly; the second one (\<open>stress_prefetch_benchmark_fp\<close>, \<open>sweep_fp\<close>,
    \<open>run_loop_fp\<close>, \<open>select_loop_fp\<close>) rounds the result of every operation on doubles with
    a rounding function \<open>rnd\<close>, and is the first one when \<open>rnd\<close> is the identity;
  \<^item> the readings of the clock (\<^verbatim>\<open>stress_time_now\<close>) and the answers of the harness
    (\<^verbatim>\<open>stress_continue\<close>) are inputs.
\<close>

type_synonym addr = nat
type_synonym heap = "addr \<Rightarrow> 64 word"

definition ptr_add :: "addr \<Rightarrow> nat \<Rightarrow> addr" where
  "ptr_add p n = p + 8 * n"

definition STRESS_PREFETCH_OFFSETS :: nat where
  "STRESS_PREFETCH_OFFSETS = 128"

definition STRESS_CACHE_LINE_SIZE :: nat where
  "STRESS_CACHE_LINE_SIZE = 64"

record stress_prefetch_info_t =
  offset :: nat
  count :: "64 word"
  duration :: real
  bytes :: real
  rate :: real

text \<open>The compile-time switches of the file, and the tags of the methods.\<close>

record build =
  STRESS_ARCH_X86_64 :: bool
  HAVE_ASM_X86_PREFETCHT0 :: bool
  HAVE_ASM_X86_PREFETCHT1 :: bool
  HAVE_ASM_X86_PREFETCHT2 :: bool
  HAVE_ASM_X86_PREFETCHNTA :: bool
  HAVE_ASM_PPC64_DCBT :: bool
  HAVE_ASM_PPC64_DCBTST :: bool
  linux :: bool

definition STRESS_PREFETCH_BUILTIN :: nat where "STRESS_PREFETCH_BUILTIN = 0"
definition STRESS_PREFETCH_BUILTIN_L0 :: nat where "STRESS_PREFETCH_BUILTIN_L0 = 1"
definition STRESS_PREFETCH_BUILTIN_L3 :: nat where "STRESS_PREFETCH_BUILTIN_L3 = 2"
definition STRESS_PREFETCH_X86_PREFETCHT0 :: nat where "STRESS_PREFETCH_X86_PREFETCHT0 = 3"
definition STRESS_PREFETCH_X86_PREFETCHT1 :: nat where "STRESS_PREFETCH_X86_PREFETCHT1 = 4"
definition STRESS_PREFETCH_X86_PREFETCHT2 :: nat where "STRESS_PREFETCH_X86_PREFETCHT2 = 5"
definition STRESS_PREFETCH_X86_PREFETCHNTA :: nat where "STRESS_PREFETCH_X86_PREFETCHNTA = 6"
definition STRESS_PREFETCH_PPC64_DCBT :: nat where "STRESS_PREFETCH_PPC64_DCBT = 7"
definition STRESS_PREFETCH_PPC64_DCBTST :: nat where "STRESS_PREFETCH_PPC64_DCBTST = 8"

text \<open>The functions that the macro \<^verbatim>\<open>STRESS_PREFETCH_LOOP\<close> is instantiated with.\<close>

datatype prefetch_func =
    stress_prefetch_none
  | stress_prefetch_builtin
  | stress_prefetch_builtin_locality0
  | stress_prefetch_builtin_locality3
  | stress_asm_x86_prefetcht0
  | stress_asm_x86_prefetcht1
  | stress_asm_x86_prefetcht2
  | stress_asm_x86_prefetchnta
  | stress_asm_ppc64_dcbt
  | stress_asm_ppc64_dcbtst

section \<open>Workload generation: \<^verbatim>\<open>stress_prefetch_data_set\<close>\<close>

function data_set_loop :: "heap \<Rightarrow> addr \<Rightarrow> addr \<Rightarrow> 32 word \<Rightarrow> 64 word \<Rightarrow> heap \<times> 64 word" where
  "data_set_loop h l3_data l3_data_end seed checksum =
     (if l3_data < l3_data_end then
        let a = (16843009 :: 32 word);
            c = (826366247 :: 32 word);
            seed1 = a * seed + c;
            val1 = (ucast seed1 :: 64 word);
            seed2 = a * seed1 + c;
            val2 = val1 OR push_bit 32 (ucast seed2 :: 64 word)
        in data_set_loop (h(l3_data := val2)) (ptr_add l3_data 1) l3_data_end seed2
             (checksum + val2)
      else (h, checksum))"
  by pat_completeness auto
termination
  by (relation "measure (\<lambda>(h, p, e, s, c). e - p)") (auto simp: ptr_add_def)

definition stress_prefetch_data_set :: "heap \<Rightarrow> addr \<Rightarrow> addr \<Rightarrow> heap \<times> 64 word" where
  "stress_prefetch_data_set h l3_data l3_data_end =
     data_set_loop h l3_data l3_data_end 123456789 0"

section \<open>The measured pass: \<^verbatim>\<open>STRESS_PREFETCH_LOOP\<close>\<close>

text \<open>
  A prefetch has no effect on the values of the program, so the model records it: one entry
  per chunk, holding the function called, the address it is called with (\<^verbatim>\<open>pre_ptr\<close>) and
  the read position of the chunk (\<^verbatim>\<open>ptr\<close>). Both loops of the macro return the final
  \<^verbatim>\<open>pre_ptr\<close> as well.
\<close>

type_synonym hint = "prefetch_func \<times> addr \<times> addr"

function verify_loop ::
  "prefetch_func \<Rightarrow> heap \<Rightarrow> addr \<Rightarrow> addr \<Rightarrow> addr \<Rightarrow> 64 word \<Rightarrow> 64 word \<times> addr \<times> hint list" where
  "verify_loop func h ptr pre_ptr l3_data_end checksum =
     (if ptr < l3_data_end then
        let checksum = checksum + h (ptr_add ptr 0);
            checksum = checksum + h (ptr_add ptr 1);
            checksum = checksum + h (ptr_add ptr 2);
            checksum = checksum + h (ptr_add ptr 3);
            checksum = checksum + h (ptr_add ptr 4);
            checksum = checksum + h (ptr_add ptr 5);
            checksum = checksum + h (ptr_add ptr 6);
            checksum = checksum + h (ptr_add ptr 7)
        in (case verify_loop func h (ptr_add ptr 8) (ptr_add pre_ptr 8) l3_data_end checksum of
              (cs, pre, tr) \<Rightarrow> (cs, pre, (func, pre_ptr, ptr) # tr))
      else (checksum, pre_ptr, []))"
  by pat_completeness auto
termination
  by (relation "measure (\<lambda>(f, h, p, q, e, c). e - p)") (auto simp: ptr_add_def)

function read_loop ::
  "prefetch_func \<Rightarrow> heap \<Rightarrow> addr \<Rightarrow> addr \<Rightarrow> addr \<Rightarrow> addr \<times> hint list" where
  "read_loop func h ptr pre_ptr l3_data_end =
     (if ptr < l3_data_end then
        (case read_loop func h (ptr_add ptr 8) (ptr_add pre_ptr 8) l3_data_end of
           (pre, tr) \<Rightarrow> (pre, (func, pre_ptr, ptr) # tr))
      else (pre_ptr, []))"
  by pat_completeness auto
termination
  by (relation "measure (\<lambda>(f, h, p, q, e). e - p)") (auto simp: ptr_add_def)

text \<open>
  The macro: under \<^verbatim>\<open>verify\<close> the checksum starts at 0 and a mismatch with
  \<^verbatim>\<open>checksum_sane\<close> clears \<^verbatim>\<open>*success\<close>. The result is the new \<^verbatim>\<open>*success\<close>, the final
  \<^verbatim>\<open>pre_ptr\<close> and the hints issued.
\<close>

definition STRESS_PREFETCH_LOOP ::
  "prefetch_func \<Rightarrow> bool \<Rightarrow> heap \<Rightarrow> addr \<Rightarrow> addr \<Rightarrow> addr \<Rightarrow> 64 word \<Rightarrow> bool
     \<Rightarrow> bool \<times> addr \<times> hint list" where
  "STRESS_PREFETCH_LOOP func verify h ptr pre_ptr l3_data_end checksum_sane success =
     (if verify then
        (case verify_loop func h ptr pre_ptr l3_data_end 0 of
           (checksum, pre, tr) \<Rightarrow>
             (if checksum \<noteq> checksum_sane then False else success, pre, tr))
      else
        (case read_loop func h ptr pre_ptr l3_data_end of
           (pre, tr) \<Rightarrow> (success, pre, tr)))"

text \<open>
  The \<^verbatim>\<open>switch (prefetch_method)\<close> of the benchmark: a case exists only where its
  instruction is compiled in, and everything else falls to \<^verbatim>\<open>default\<close>, which shares the
  branch of \<^verbatim>\<open>STRESS_PREFETCH_BUILTIN\<close>.
\<close>

definition method_func :: "build \<Rightarrow> nat \<Rightarrow> prefetch_func" where
  "method_func b prefetch_method =
     (if prefetch_method = STRESS_PREFETCH_BUILTIN then stress_prefetch_builtin
      else if prefetch_method = STRESS_PREFETCH_BUILTIN_L0 then stress_prefetch_builtin_locality0
      else if prefetch_method = STRESS_PREFETCH_BUILTIN_L3 then stress_prefetch_builtin_locality3
      else if HAVE_ASM_X86_PREFETCHT0 b \<and> prefetch_method = STRESS_PREFETCH_X86_PREFETCHT0
        then stress_asm_x86_prefetcht0
      else if HAVE_ASM_X86_PREFETCHT1 b \<and> prefetch_method = STRESS_PREFETCH_X86_PREFETCHT1
        then stress_asm_x86_prefetcht1
      else if HAVE_ASM_X86_PREFETCHT2 b \<and> prefetch_method = STRESS_PREFETCH_X86_PREFETCHT2
        then stress_asm_x86_prefetcht2
      else if HAVE_ASM_X86_PREFETCHNTA b \<and> prefetch_method = STRESS_PREFETCH_X86_PREFETCHNTA
        then stress_asm_x86_prefetchnta
      else if HAVE_ASM_PPC64_DCBT b \<and> prefetch_method = STRESS_PREFETCH_PPC64_DCBT
        then stress_asm_ppc64_dcbt
      else if HAVE_ASM_PPC64_DCBTST b \<and> prefetch_method = STRESS_PREFETCH_PPC64_DCBTST
        then stress_asm_ppc64_dcbtst
      else stress_prefetch_builtin)"

text \<open>
  Lines 275 to 326 of the benchmark: \<^verbatim>\<open>ptr = l3_data\<close>,
  \<^verbatim>\<open>pre_ptr = l3_data + prefetch_info[i].offset\<close> (arithmetic on a \<^verbatim>\<open>uint64_t *\<close>), then the
  loop for offset 0 or for the selected method.
\<close>

definition measured_pass ::
  "build \<Rightarrow> stress_prefetch_info_t list \<Rightarrow> nat \<Rightarrow> nat \<Rightarrow> 64 word \<Rightarrow> heap \<Rightarrow> addr \<Rightarrow> addr
     \<Rightarrow> bool \<Rightarrow> bool \<Rightarrow> bool \<times> addr \<times> hint list" where
  "measured_pass b prefetch_info prefetch_method i checksum_sane h l3_data l3_data_end
       verify success =
     (let ptr = l3_data;
          pre_ptr = ptr_add l3_data (offset (prefetch_info ! i))
      in if offset (prefetch_info ! i) = 0 then
           STRESS_PREFETCH_LOOP stress_prefetch_none verify h ptr pre_ptr l3_data_end
             checksum_sane success
         else
           STRESS_PREFETCH_LOOP (method_func b prefetch_method) verify h ptr pre_ptr
             l3_data_end checksum_sane success)"

section \<open>One benchmark step: \<^verbatim>\<open>stress_prefetch_benchmark\<close>\<close>

text \<open>
  What the function can write: the array \<^verbatim>\<open>prefetch_info\<close>, \<^verbatim>\<open>*total_count\<close> and
  \<^verbatim>\<open>*success\<close>; the buffer is carried along, since the function holds a pointer to it.
  \<^verbatim>\<open>checksum_sane\<close> is passed by value. The calibration loop (lines 258 to 268) only advances
  two local pointers, which are thrown away; its sole trace is the pair of clock readings
  \<open>t1\<close>, \<open>t2\<close>. The index \<open>i\<close> is below the array's length at every call of the program; beyond
  it the C is undefined and the model's list is left as it is.
\<close>

record bench_state =
  prefetch_info :: "stress_prefetch_info_t list"
  total_count :: "64 word"
  success :: bool
  l3 :: heap

type_synonym clock = "real \<times> real \<times> real \<times> real"

definition stress_prefetch_benchmark ::
  "build \<Rightarrow> nat \<Rightarrow> nat \<Rightarrow> 64 word \<Rightarrow> addr \<Rightarrow> addr \<Rightarrow> bool \<Rightarrow> clock \<Rightarrow> bench_state
     \<Rightarrow> bench_state" where
  "stress_prefetch_benchmark b prefetch_method i checksum_sane l3_data l3_data_end verify clk st =
     (case clk of (t1, t2, t3, t4) \<Rightarrow>
        let l3_data_size = l3_data_end - l3_data;
            succ = fst (measured_pass b (prefetch_info st) prefetch_method i checksum_sane
                          (l3 st) l3_data l3_data_end verify (success st));
            e = prefetch_info st ! i;
            e' = e\<lparr> bytes := bytes e + real l3_data_size,
                    duration := duration e + ((t4 - t3) - (t2 - t1)),
                    count := count e + 1 \<rparr>
        in st\<lparr> prefetch_info := (prefetch_info st)[i := e'],
               total_count := total_count st + 1,
               success := succ \<rparr>)"

section \<open>The statistics array at the start of a run\<close>

text \<open>
  Lines 408 to 414 of \<^verbatim>\<open>stress_prefetch\<close>: every field of every entry is set, the offset of
  entry \<open>i\<close> to \<open>i * STRESS_CACHE_LINE_SIZE\<close>.
\<close>

definition init_prefetch_info :: "stress_prefetch_info_t list" where
  "init_prefetch_info =
     map (\<lambda>i. \<lparr> offset = i * STRESS_CACHE_LINE_SIZE, count = 0, duration = 0, bytes = 0,
                 rate = 0 \<rparr>) [0..<STRESS_PREFETCH_OFFSETS]"

section \<open>The run loop of \<^verbatim>\<open>stress_prefetch\<close>\<close>

text \<open>
  The \<^verbatim>\<open>for\<close> loop over the entries (lines 423 to 430) visits the indices below
  \<^verbatim>\<open>SIZEOF_ARRAY(prefetch_info)\<close> in order and breaks when a step clears the flag. \<open>clk i\<close>
  holds the four clock readings of the step at index \<open>i\<close>.
\<close>

fun sweep ::
  "build \<Rightarrow> nat \<Rightarrow> 64 word \<Rightarrow> addr \<Rightarrow> addr \<Rightarrow> bool \<Rightarrow> (nat \<Rightarrow> clock) \<Rightarrow> nat list
     \<Rightarrow> bench_state \<Rightarrow> bench_state" where
  "sweep b prefetch_method checksum_sane l3_data l3_data_end verify clk [] st = st"
| "sweep b prefetch_method checksum_sane l3_data l3_data_end verify clk (i # idxs) st =
     (let st' = stress_prefetch_benchmark b prefetch_method i checksum_sane l3_data l3_data_end
                  verify (clk i) st
      in if \<not> success st' then st'
         else sweep b prefetch_method checksum_sane l3_data l3_data_end verify clk idxs st')"

text \<open>
  The \<^verbatim>\<open>do ... while (success && stress_continue(args))\<close> loop. The harness is an input:
  the clock readings of the first sweep, and one further element for every time
  \<^verbatim>\<open>stress_continue\<close> answers true, so the loop stops on a failure or when the list is used
  up. \<^verbatim>\<open>stress_bogo_inc\<close> advances a counter of the harness that the stressor never reads; it
  is left out.
\<close>

fun run_loop ::
  "build \<Rightarrow> nat \<Rightarrow> 64 word \<Rightarrow> addr \<Rightarrow> addr \<Rightarrow> bool \<Rightarrow> (nat \<Rightarrow> clock) \<Rightarrow> (nat \<Rightarrow> clock) list
     \<Rightarrow> bench_state \<Rightarrow> bench_state" where
  "run_loop b prefetch_method checksum_sane l3_data l3_data_end verify clk [] st =
     sweep b prefetch_method checksum_sane l3_data l3_data_end verify clk
       [0..<length (prefetch_info st)] st"
| "run_loop b prefetch_method checksum_sane l3_data l3_data_end verify clk (clk' # clks) st =
     (let st' = sweep b prefetch_method checksum_sane l3_data l3_data_end verify clk
                  [0..<length (prefetch_info st)] st
      in if success st'
         then run_loop b prefetch_method checksum_sane l3_data l3_data_end verify clk' clks st'
         else st')"

section \<open>The selection of the best offset and the rate check\<close>

text \<open>
  Lines 434 to 446: the loop sets the rate of every entry and keeps the index and the value
  of the first rate above all earlier ones, starting from \<open>best = 0\<close>, \<open>best_rate = 0.0\<close>.
  \<^verbatim>\<open>SIZEOF_ARRAY(prefetch_info)\<close> is the length of the array, here and in the run loop.
\<close>

function select_loop ::
  "nat \<Rightarrow> stress_prefetch_info_t list \<Rightarrow> nat \<Rightarrow> real
     \<Rightarrow> stress_prefetch_info_t list \<times> nat \<times> real" where
  "select_loop i info best best_rate =
     (if i < length info then
        let e = info ! i;
            info' = info[i := e\<lparr> rate := (if duration e > 0 then bytes e / duration e else 0) \<rparr>]
        in if rate (info' ! i) > best_rate
           then select_loop (Suc i) info' i (rate (info' ! i))
           else select_loop (Suc i) info' best best_rate
      else (info, best, best_rate))"
  by pat_completeness auto
termination
  by (relation "measure (\<lambda>(i, info, best, best_rate). length info - i)") auto

text \<open>
  Modelled from the spec: the macro \<^verbatim>\<open>GB\<close> of \<^verbatim>\<open>stress-ng.h\<close>, which is not among the
  sources. The specification reports the rates in gigabytes per second; the unit is taken as
  \<open>2 ^ 30\<close> bytes. The theorems below use only that it is positive.
\<close>

definition GB :: real where
  "GB = 2 ^ 30"

datatype exit_status = EXIT_SUCCESS | EXIT_FAILURE | EXIT_NO_RESOURCE

datatype proc_state = STRESS_STATE_RUN | STRESS_STATE_DEINIT

datatype event =
    Mmap nat
  | Munmap nat
  | Set_proc_state proc_state
  | Metrics_set nat real

text \<open>
  Lines 434 to 469, after the run loop: the selection, the two metrics and the sanity check
  of the rates. The result is the array with its rates, \<open>best\<close>, the two rates in GB per
  second (metric 0 and metric 1) and the success flag. The latency \<^verbatim>\<open>ns\<close> only feeds a debug
  message and is left out, like all logging.
\<close>

record report =
  info_out :: "stress_prefetch_info_t list"
  best_out :: nat
  non_prefetch_rate :: real
  best_rate_out :: real
  success_out :: bool

definition stress_prefetch_report ::
  "bool \<Rightarrow> bool \<Rightarrow> stress_prefetch_info_t list \<Rightarrow> bool \<Rightarrow> report" where
  "stress_prefetch_report verify check_prefetch_rate info succ =
     (case select_loop 0 info 0 0 of
        (info', best, best_rate) \<Rightarrow>
          let non_prefetch = rate (info' ! 0) / GB;
              best_rate_gb = best_rate / GB
          in \<lparr> info_out = info', best_out = best, non_prefetch_rate = non_prefetch,
               best_rate_out = best_rate_gb,
               success_out = (if verify \<and> check_prefetch_rate \<and> best_rate_gb < non_prefetch
                              then False else succ) \<rparr>)"

section \<open>The method table and the cache size\<close>

text \<open>
  A row of \<^verbatim>\<open>prefetch_methods\<close> (its field \<^verbatim>\<open>method\<close> is \<open>method_tag\<close> here, since the
  name is taken). The field \<^verbatim>\<open>available\<close> is a function without arguments;
  the model holds what it returns. \<^verbatim>\<open>stress_cpu_x86_has_sse\<close> is not among the sources, so
  its answer \<open>has_sse\<close> is a parameter of the table.
\<close>

record stress_prefetch_method_t =
  name :: string
  method_tag :: nat
  available :: bool
  check_prefetch_rate :: bool

definition prefetch_methods :: "build \<Rightarrow> bool \<Rightarrow> stress_prefetch_method_t list" where
  "prefetch_methods b has_sse =
     [\<lparr> name = ''builtin'', method_tag = STRESS_PREFETCH_BUILTIN, available = True,
        check_prefetch_rate = False \<rparr>,
      \<lparr> name = ''builtinl0'', method_tag = STRESS_PREFETCH_BUILTIN_L0, available = True,
        check_prefetch_rate = False \<rparr>,
      \<lparr> name = ''builtinl3'', method_tag = STRESS_PREFETCH_BUILTIN_L3, available = True,
        check_prefetch_rate = False \<rparr>] @
     (if HAVE_ASM_X86_PREFETCHT0 b
      then [\<lparr> name = ''prefetcht0'', method_tag = STRESS_PREFETCH_X86_PREFETCHT0,
              available = has_sse, check_prefetch_rate = True \<rparr>] else []) @
     (if HAVE_ASM_X86_PREFETCHT1 b
      then [\<lparr> name = ''prefetcht1'', method_tag = STRESS_PREFETCH_X86_PREFETCHT1,
              available = has_sse, check_prefetch_rate = True \<rparr>] else []) @
     (if HAVE_ASM_X86_PREFETCHT2 b
      then [\<lparr> name = ''prefetcht2'', method_tag = STRESS_PREFETCH_X86_PREFETCHT2,
              available = has_sse, check_prefetch_rate = True \<rparr>] else []) @
     (if HAVE_ASM_X86_PREFETCHNTA b
      then [\<lparr> name = ''prefetchnta'', method_tag = STRESS_PREFETCH_X86_PREFETCHNTA,
              available = has_sse, check_prefetch_rate = True \<rparr>] else []) @
     (if HAVE_ASM_PPC64_DCBT b
      then [\<lparr> name = ''dcbt'', method_tag = STRESS_PREFETCH_PPC64_DCBT,
              available = True, check_prefetch_rate = True \<rparr>] else []) @
     (if HAVE_ASM_PPC64_DCBTST b
      then [\<lparr> name = ''dcbtst'', method_tag = STRESS_PREFETCH_PPC64_DCBTST,
              available = True, check_prefetch_rate = True \<rparr>] else [])"

text \<open>
  Modelled from the spec: the macro \<^verbatim>\<open>MB\<close> of \<^verbatim>\<open>stress-ng.h\<close>, which is not among the
  sources. The specification gives the default as 4 MiB.
\<close>

definition MB :: nat where
  "MB = 1024 * 1024"

definition DEFAULT_PREFETCH_L3_SIZE :: nat where
  "DEFAULT_PREFETCH_L3_SIZE = 4 * MB"

text \<open>
  The cache topology, as \<^verbatim>\<open>get_prefetch_L3_size\<close> sees it. The functions of
  \<^verbatim>\<open>core-cpu-cache\<close> are not among the sources, so their answers are parameters:
  \<^verbatim>\<open>stress_cpu_cache_get_all_details\<close> returns \<open>None\<close> for a null pointer, \<open>max_level\<close> is the
  answer of \<^verbatim>\<open>stress_cpu_cache_get_max_level\<close> and \<open>cache_get\<close> the one of
  \<^verbatim>\<open>stress_cpu_cache_get\<close> (\<open>None\<close> for a null pointer).
\<close>

record stress_cpu_cache_t =
  cache_size :: nat

record stress_cpu_cache_cpus_t =
  max_level :: nat
  cache_get :: "nat \<Rightarrow> stress_cpu_cache_t option"

definition get_prefetch_L3_size :: "build \<Rightarrow> stress_cpu_cache_cpus_t option \<Rightarrow> nat" where
  "get_prefetch_L3_size b all_details =
     (let cache_size0 = DEFAULT_PREFETCH_L3_SIZE
      in if linux b then
           (case all_details of
              None \<Rightarrow> cache_size0
            | Some cpu_caches \<Rightarrow>
                let max_cache_level = max_level cpu_caches
                in (case cache_get cpu_caches max_cache_level of
                      None \<Rightarrow> cache_size0
                    | Some cache \<Rightarrow>
                        if cache_size cache = 0 then cache_size0 else cache_size cache))
         else cache_size0)"

section \<open>The stressor: \<^verbatim>\<open>stress_prefetch\<close>\<close>

text \<open>
  What the stressor reads from outside: the two settings (the method is an index into the
  table, 0 when unset; the size is 0 when unset), the verify flag, the answers about the CPU
  and its caches, the address \<^verbatim>\<open>mmap\<close> returns (\<open>None\<close> for \<^verbatim>\<open>MAP_FAILED\<close>), and the harness
  of the run loop. An anonymous mapping is zero-filled.
\<close>

record environment =
  setting_prefetch_method :: "nat option"
  setting_prefetch_L3_size :: "nat option"
  opt_flags_verify :: bool
  cpu_x86_has_sse :: bool
  cpu_cache_details :: "stress_cpu_cache_cpus_t option"
  mmap_result :: "addr option"
  first_sweep :: "nat \<Rightarrow> clock"
  more_sweeps :: "(nat \<Rightarrow> clock) list"

text \<open>
  Line 374: \<^verbatim>\<open>prefetch_method\<close> starts as \<^verbatim>\<open>STRESS_PREFETCH_BUILTIN\<close> and is overwritten by the
  setting when there is one.
\<close>

definition selected_method :: "environment \<Rightarrow> nat" where
  "selected_method env =
     (case setting_prefetch_method env of None \<Rightarrow> STRESS_PREFETCH_BUILTIN | Some m \<Rightarrow> m)"

text \<open>
  Lines 387 to 391: the size of the buffer is the setting, or the discovered size when the
  setting is unset or 0; the mapping is longer by one cache line per offset.
\<close>

definition resolve_l3_data_size :: "build \<Rightarrow> environment \<Rightarrow> nat" where
  "resolve_l3_data_size b env =
     (let l3_data_size = (case setting_prefetch_L3_size env of None \<Rightarrow> 0 | Some n \<Rightarrow> n)
      in if l3_data_size = 0 then get_prefetch_L3_size b (cpu_cache_details env)
         else l3_data_size)"

definition l3_data_mmap_size_of :: "nat \<Rightarrow> nat" where
  "l3_data_mmap_size_of l3_data_size =
     l3_data_size + STRESS_PREFETCH_OFFSETS * STRESS_CACHE_LINE_SIZE"

text \<open>
  What a run leaves behind: the exit status, the calls to the outside in their order, the
  array after the selection and the total count of benchmark steps (both empty when the
  stressor returns before the run loop). The setting of the method is written only by
  \<^verbatim>\<open>stress_set_prefetch_method\<close>, which stores an index of the table; with any other index
  the C reads beyond the table, and the row the model reads is unspecified.
\<close>

record result =
  status :: exit_status
  events :: "event list"
  final_info :: "stress_prefetch_info_t list"
  benchmark_calls :: "64 word"

definition stress_prefetch :: "build \<Rightarrow> environment \<Rightarrow> result" where
  "stress_prefetch b env =
     (let verify = opt_flags_verify env;
          prefetch_method = selected_method env;
          entry = prefetch_methods b (cpu_x86_has_sse env) ! prefetch_method
      in if \<not> available entry then
           \<lparr> status = EXIT_NO_RESOURCE, events = [], final_info = [], benchmark_calls = 0 \<rparr>
         else
           let check_rate = (if STRESS_ARCH_X86_64 b then True else check_prefetch_rate entry);
               l3_data_size = resolve_l3_data_size b env;
               l3_data_mmap_size = l3_data_mmap_size_of l3_data_size
           in (case mmap_result env of
                 None \<Rightarrow>
                   \<lparr> status = EXIT_NO_RESOURCE, events = [Mmap l3_data_mmap_size],
                     final_info = [], benchmark_calls = 0 \<rparr>
               | Some l3_data \<Rightarrow>
                   let l3_data_end = l3_data + l3_data_size;
                       (h, checksum_sane) = stress_prefetch_data_set (\<lambda>_. 0) l3_data l3_data_end;
                       st = run_loop b prefetch_method checksum_sane l3_data l3_data_end verify
                              (first_sweep env) (more_sweeps env)
                              \<lparr> prefetch_info = init_prefetch_info, total_count = 0,
                                success = True, l3 = h \<rparr>;
                       r = stress_prefetch_report verify check_rate (prefetch_info st) (success st)
                   in \<lparr> status = (if success_out r then EXIT_SUCCESS else EXIT_FAILURE),
                        events = [Mmap l3_data_mmap_size, Set_proc_state STRESS_STATE_RUN,
                                  Metrics_set 0 (non_prefetch_rate r),
                                  Metrics_set 1 (best_rate_out r),
                                  Set_proc_state STRESS_STATE_DEINIT, Munmap l3_data_mmap_size],
                        final_info = info_out r,
                        benchmark_calls = total_count st \<rparr>))"

section \<open>The statistics in double arithmetic\<close>

text \<open>
  An operation on doubles is the exact operation followed by rounding. The rounding function
  \<open>rnd\<close> is a parameter: for IEEE 754 it is rounding to the nearest double, which is monotone
  and maps 0 to 0, and those two properties are all that is assumed of it below. Infinities
  and NaN are not modelled: the byte counts and times of a run stay far inside the range of
  a double.
\<close>

definition fadd :: "(real \<Rightarrow> real) \<Rightarrow> real \<Rightarrow> real \<Rightarrow> real" where
  "fadd rnd x y = rnd (x + y)"

definition fsub :: "(real \<Rightarrow> real) \<Rightarrow> real \<Rightarrow> real \<Rightarrow> real" where
  "fsub rnd x y = rnd (x - y)"

definition fdiv :: "(real \<Rightarrow> real) \<Rightarrow> real \<Rightarrow> real \<Rightarrow> real" where
  "fdiv rnd x y = rnd (x / y)"

definition double_of_size :: "(real \<Rightarrow> real) \<Rightarrow> nat \<Rightarrow> real" where
  "double_of_size rnd n = rnd (real n)"

text \<open>
  \<^verbatim>\<open>stress_prefetch_benchmark\<close> with its three statements on doubles rounded: the conversion
  \<^verbatim>\<open>(double)l3_data_size\<close>, the two sums, and the three differences of
  \<^verbatim>\<open>(t4 - t3) - (t2 - t1)\<close>. The clock readings are doubles as they come.
\<close>

definition stress_prefetch_benchmark_fp ::
  "(real \<Rightarrow> real) \<Rightarrow> build \<Rightarrow> nat \<Rightarrow> nat \<Rightarrow> 64 word \<Rightarrow> addr \<Rightarrow> addr \<Rightarrow> bool \<Rightarrow> clock
     \<Rightarrow> bench_state \<Rightarrow> bench_state" where
  "stress_prefetch_benchmark_fp rnd b prefetch_method i checksum_sane l3_data l3_data_end verify
       clk st =
     (case clk of (t1, t2, t3, t4) \<Rightarrow>
        let l3_data_size = l3_data_end - l3_data;
            succ = fst (measured_pass b (prefetch_info st) prefetch_method i checksum_sane
                          (l3 st) l3_data l3_data_end verify (success st));
            e = prefetch_info st ! i;
            e' = e\<lparr> bytes := fadd rnd (bytes e) (double_of_size rnd l3_data_size),
                    duration := fadd rnd (duration e) (fsub rnd (fsub rnd t4 t3) (fsub rnd t2 t1)),
                    count := count e + 1 \<rparr>
        in st\<lparr> prefetch_info := (prefetch_info st)[i := e'],
               total_count := total_count st + 1,
               success := succ \<rparr>)"

text \<open>The two loops around it, as above.\<close>

fun sweep_fp ::
  "(real \<Rightarrow> real) \<Rightarrow> build \<Rightarrow> nat \<Rightarrow> 64 word \<Rightarrow> addr \<Rightarrow> addr \<Rightarrow> bool \<Rightarrow> (nat \<Rightarrow> clock)
     \<Rightarrow> nat list \<Rightarrow> bench_state \<Rightarrow> bench_state" where
  "sweep_fp rnd b prefetch_method checksum_sane l3_data l3_data_end verify clk [] st = st"
| "sweep_fp rnd b prefetch_method checksum_sane l3_data l3_data_end verify clk (i # idxs) st =
     (let st' = stress_prefetch_benchmark_fp rnd b prefetch_method i checksum_sane l3_data
                  l3_data_end verify (clk i) st
      in if \<not> success st' then st'
         else sweep_fp rnd b prefetch_method checksum_sane l3_data l3_data_end verify clk idxs
                st')"

fun run_loop_fp ::
  "(real \<Rightarrow> real) \<Rightarrow> build \<Rightarrow> nat \<Rightarrow> 64 word \<Rightarrow> addr \<Rightarrow> addr \<Rightarrow> bool \<Rightarrow> (nat \<Rightarrow> clock)
     \<Rightarrow> (nat \<Rightarrow> clock) list \<Rightarrow> bench_state \<Rightarrow> bench_state" where
  "run_loop_fp rnd b prefetch_method checksum_sane l3_data l3_data_end verify clk [] st =
     sweep_fp rnd b prefetch_method checksum_sane l3_data l3_data_end verify clk
       [0..<length (prefetch_info st)] st"
| "run_loop_fp rnd b prefetch_method checksum_sane l3_data l3_data_end verify clk (clk' # clks)
       st =
     (let st' = sweep_fp rnd b prefetch_method checksum_sane l3_data l3_data_end verify clk
                  [0..<length (prefetch_info st)] st
      in if success st'
         then run_loop_fp rnd b prefetch_method checksum_sane l3_data l3_data_end verify clk'
                clks st'
         else st')"

text \<open>
  The selection loop with the quotient of line 438 rounded. The comparisons of lines 437 and
  442 are exact on doubles.
\<close>

function select_loop_fp ::
  "(real \<Rightarrow> real) \<Rightarrow> nat \<Rightarrow> stress_prefetch_info_t list \<Rightarrow> nat \<Rightarrow> real
     \<Rightarrow> stress_prefetch_info_t list \<times> nat \<times> real" where
  "select_loop_fp rnd i info best best_rate =
     (if i < length info then
        let e = info ! i;
            info' = info[i := e\<lparr> rate := (if duration e > 0
                                           then fdiv rnd (bytes e) (duration e) else 0) \<rparr>]
        in if rate (info' ! i) > best_rate
           then select_loop_fp rnd (Suc i) info' i (rate (info' ! i))
           else select_loop_fp rnd (Suc i) info' best best_rate
      else (info, best, best_rate))"
  by pat_completeness auto
termination
  by (relation "measure (\<lambda>(rnd, i, info, best, best_rate). length info - i)") auto

section \<open>Inputs for the examples\<close>

text \<open>A build for the examples: x86-64 Linux with the four x86 prefetch instructions.\<close>

definition x86_64_linux :: build where
  "x86_64_linux =
     \<lparr> STRESS_ARCH_X86_64 = True, HAVE_ASM_X86_PREFETCHT0 = True,
       HAVE_ASM_X86_PREFETCHT1 = True, HAVE_ASM_X86_PREFETCHT2 = True,
       HAVE_ASM_X86_PREFETCHNTA = True, HAVE_ASM_PPC64_DCBT = False,
       HAVE_ASM_PPC64_DCBTST = False, linux = True \<rparr>"

text \<open>
  An environment for the examples: the method with index 3 is selected, the size is set to
  0, the CPU reports no SSE and a level-3 cache of 8 MiB, and the mapping fails.
\<close>

definition example_env :: environment where
  "example_env =
     \<lparr> setting_prefetch_method = Some 3, setting_prefetch_L3_size = Some 0,
       opt_flags_verify = True, cpu_x86_has_sse = False,
       cpu_cache_details =
         Some \<lparr> max_level = 3,
                cache_get = (\<lambda>l. if l = 3 then Some \<lparr> cache_size = 8388608 \<rparr> else None) \<rparr>,
       mmap_result = None,
       first_sweep = (\<lambda>i. (0, 0, 0, if i = 0 then 1 else 2)),
       more_sweeps = [] \<rparr>"

text \<open>
  An x86-64 run with verification: method \<^verbatim>\<open>prefetcht0\<close> (index 3, and the CPU has SSE), a
  buffer of 4096 bytes mapped at address 65536, and one sweep in which the pass of entry 0
  takes 1 second net and the pass of every other entry 2 seconds.
\<close>

definition failing_env :: environment where
  "failing_env =
     \<lparr> setting_prefetch_method = Some 3, setting_prefetch_L3_size = Some 4096,
       opt_flags_verify = True, cpu_x86_has_sse = True,
       cpu_cache_details = None,
       mmap_result = Some 65536,
       first_sweep = (\<lambda>i. (0, 0, 0, if i = 0 then 1 else 2)),
       more_sweeps = [] \<rparr>"

text \<open>A coarse rounding for the examples: down to the next integer.\<close>

definition round_down :: "real \<Rightarrow> real" where
  "round_down x = of_int \<lfloor>x\<rfloor>"

section \<open>The generator: what the loop of \<^verbatim>\<open>stress_prefetch_data_set\<close> writes\<close>

text \<open>
  The specification's generator, in its words: a linear-congruential sequence with
  multiplier 16843009 and increment 826366247 on 32 bits, started at the seed 123456789.
  \<open>lcg n\<close> is the seed after \<open>n\<close> steps, so the outputs are \<open>lcg 1\<close>, \<open>lcg 2\<close>, ...
  \<open>lcg_from\<close> is the same sequence from any seed, for the induction over the loop, and
  \<open>pack lo hi\<close> is the 64-bit word the loop builds from two outputs.
\<close>

definition lcg_step :: "32 word \<Rightarrow> 32 word" where
  "lcg_step x = 16843009 * x + 826366247"

fun lcg :: "nat \<Rightarrow> 32 word" where
  "lcg 0 = 123456789"
| "lcg (Suc n) = lcg_step (lcg n)"

fun lcg_from :: "32 word \<Rightarrow> nat \<Rightarrow> 32 word" where
  "lcg_from s 0 = s"
| "lcg_from s (Suc n) = lcg_step (lcg_from s n)"

lemma lcg_from_shift: "lcg_from (lcg_step s) n = lcg_from s (Suc n)"
  by (induction n) simp_all

lemma lcg_from_seed: "lcg_from 123456789 n = lcg n"
  by (induction n) simp_all

definition pack :: "32 word \<Rightarrow> 32 word \<Rightarrow> 64 word" where
  "pack lo hi = (ucast lo :: 64 word) OR push_bit 32 (ucast hi :: 64 word)"

lemma pack_low: "(ucast (pack lo hi) :: 32 word) = lo"
  unfolding pack_def
  by (rule bit_word_eqI) (auto simp: bit_simps)

lemma pack_high: "(ucast (drop_bit 32 (pack lo hi)) :: 32 word) = hi"
  unfolding pack_def
  by (rule bit_word_eqI) (auto simp: bit_simps dest: bit_imp_le_length)

definition nwords :: "addr \<Rightarrow> addr \<Rightarrow> nat" where
  "nwords p e = (e - p + 7) div 8"

lemma nwords_step: "p < e \<Longrightarrow> nwords p e = Suc (nwords (ptr_add p 1) e)"
proof -
  assume "p < e"
  then obtain d where e: "e = p + Suc d"
    by (metis less_imp_Suc_add add_Suc_right)
  show ?thesis
  proof (cases "d < 8")
    case True
    then show ?thesis by (simp add: nwords_def ptr_add_def e)
  next
    case False
    then obtain d' where d: "d = 8 + d'"
      by (metis le_add_diff_inverse not_less)
    show ?thesis by (simp add: nwords_def ptr_add_def e d)
  qed
qed

lemma nwords_done: "\<not> p < e \<Longrightarrow> nwords p e = 0"
  unfolding nwords_def by simp

declare data_set_loop.simps [simp del]

lemma nwords_pos: "nwords p e = Suc n \<Longrightarrow> p < e"
  by (rule ccontr) (simp add: nwords_done)

lemma nwords_rec: "nwords p e = Suc n \<Longrightarrow> nwords (ptr_add p 1) e = n"
  using nwords_step [OF nwords_pos, of p e n] by simp

lemma data_set_loop_step:
  "p < e \<Longrightarrow>
   data_set_loop h p e s cs =
     data_set_loop (h(p := pack (lcg_step s) (lcg_step (lcg_step s)))) (ptr_add p 1) e
       (lcg_step (lcg_step s)) (cs + pack (lcg_step s) (lcg_step (lcg_step s)))"
  by (subst data_set_loop.simps) (simp add: Let_def pack_def lcg_step_def)

lemma data_set_loop_stop: "\<not> p < e \<Longrightarrow> data_set_loop h p e s cs = (h, cs)"
  by (subst data_set_loop.simps) simp

lemma data_set_loop_below:
  "nwords p e = n \<Longrightarrow> data_set_loop h p e s cs = (h', cs') \<Longrightarrow> a < p \<Longrightarrow> h' a = h a"
proof (induction n arbitrary: h p s cs)
  case 0
  then have "\<not> p < e" using nwords_step [of p e] by auto
  with "0.prems" show ?case by (simp add: data_set_loop_stop)
next
  case (Suc n)
  let ?v = "pack (lcg_step s) (lcg_step (lcg_step s))"
  have lt: "p < e" by (rule nwords_pos [OF Suc.prems(1)])
  have rec: "data_set_loop (h(p := ?v)) (ptr_add p 1) e (lcg_step (lcg_step s)) (cs + ?v) = (h', cs')"
    using Suc.prems(2) by (simp add: data_set_loop_step [OF lt])
  have "h' a = (h(p := ?v)) a"
    by (rule Suc.IH [OF nwords_rec [OF Suc.prems(1)] rec]) (use Suc.prems(3) in \<open>simp add: ptr_add_def\<close>)
  with Suc.prems(3) show ?case by simp
qed

lemma data_set_loop_cells:
  "nwords p e = n \<Longrightarrow> data_set_loop h p e s cs = (h', cs') \<Longrightarrow> k < n \<Longrightarrow>
     h' (p + 8 * k) = pack (lcg_from s (2 * k + 1)) (lcg_from s (2 * k + 2))"
proof (induction n arbitrary: h p s cs k)
  case 0
  then show ?case by simp
next
  case (Suc n)
  let ?v = "pack (lcg_step s) (lcg_step (lcg_step s))"
  have lt: "p < e" by (rule nwords_pos [OF Suc.prems(1)])
  have rec: "data_set_loop (h(p := ?v)) (ptr_add p 1) e (lcg_step (lcg_step s)) (cs + ?v) = (h', cs')"
    using Suc.prems(2) by (simp add: data_set_loop_step [OF lt])
  show ?case
  proof (cases k)
    case 0
    have "h' p = (h(p := ?v)) p"
      by (rule data_set_loop_below [OF nwords_rec [OF Suc.prems(1)] rec]) (simp add: ptr_add_def)
    with 0 show ?thesis by simp
  next
    case (Suc j)
    with Suc.prems(3) have j: "j < n" by simp
    have "h' (ptr_add p 1 + 8 * j) =
            pack (lcg_from (lcg_step (lcg_step s)) (2 * j + 1))
                 (lcg_from (lcg_step (lcg_step s)) (2 * j + 2))"
      by (rule Suc.IH [OF nwords_rec [OF Suc.prems(1)] rec j])
    then show ?thesis
      using Suc by (simp add: ptr_add_def lcg_from_shift add.assoc)
  qed
qed

lemma data_set_loop_checksum:
  "nwords p e = n \<Longrightarrow> data_set_loop h p e s cs = (h', cs') \<Longrightarrow>
     cs' = cs + (\<Sum>k<n. h' (p + 8 * k))"
proof (induction n arbitrary: h p s cs)
  case 0
  then have "\<not> p < e" using nwords_step [of p e] by auto
  with "0.prems" show ?case by (simp add: data_set_loop_stop)
next
  case (Suc n)
  let ?v = "pack (lcg_step s) (lcg_step (lcg_step s))"
  have lt: "p < e" by (rule nwords_pos [OF Suc.prems(1)])
  have rec: "data_set_loop (h(p := ?v)) (ptr_add p 1) e (lcg_step (lcg_step s)) (cs + ?v) = (h', cs')"
    using Suc.prems(2) by (simp add: data_set_loop_step [OF lt])
  have hp: "h' p = ?v"
    using data_set_loop_below [OF nwords_rec [OF Suc.prems(1)] rec, of p] by (simp add: ptr_add_def)
  have "cs' = (cs + ?v) + (\<Sum>k<n. h' (ptr_add p 1 + 8 * k))"
    by (rule Suc.IH [OF nwords_rec [OF Suc.prems(1)] rec])
  then show ?case
    using hp by (simp add: sum.lessThan_Suc_shift ptr_add_def add.assoc del: sum.lessThan_Suc)
qed

section \<open>The two loops of the macro, chunk by chunk\<close>

text \<open>
  \<open>nchunks p e\<close> is the number of iterations of a loop that starts at \<open>p\<close>, advances by
  8 words and stops at the first position not below \<open>e\<close>. \<open>chunk_hints\<close> lists what such a
  loop records: the hinted address and the read position both advance by 64 bytes per chunk.
\<close>

declare verify_loop.simps [simp del] read_loop.simps [simp del]

definition nchunks :: "addr \<Rightarrow> addr \<Rightarrow> nat" where
  "nchunks p e = (e - p + 63) div 64"

lemma nchunks_step: "p < e \<Longrightarrow> nchunks p e = Suc (nchunks (ptr_add p 8) e)"
proof -
  assume "p < e"
  then obtain d where e: "e = p + Suc d"
    by (metis less_imp_Suc_add add_Suc_right)
  show ?thesis
  proof (cases "d < 64")
    case True
    then show ?thesis by (simp add: nchunks_def ptr_add_def e)
  next
    case False
    then obtain d' where d: "d = 64 + d'"
      by (metis le_add_diff_inverse not_less)
    show ?thesis by (simp add: nchunks_def ptr_add_def e d)
  qed
qed

lemma nchunks_done: "\<not> p < e \<Longrightarrow> nchunks p e = 0"
  unfolding nchunks_def by simp

lemma nchunks_pos: "nchunks p e = Suc n \<Longrightarrow> p < e"
  by (rule ccontr) (simp add: nchunks_done)

lemma nchunks_zero: "nchunks p e = 0 \<Longrightarrow> \<not> p < e"
  using nchunks_step [of p e] by auto

lemma nchunks_rec: "nchunks p e = Suc n \<Longrightarrow> nchunks (ptr_add p 8) e = n"
  using nchunks_step [OF nchunks_pos, of p e n] by simp

lemma nchunks_multiple: "nchunks p (p + 64 * m) = m"
  by (simp add: nchunks_def)

lemma nwords_multiple: "nwords p (p + 64 * m) = 8 * m"
  by (simp add: nwords_def)

definition chunk_hints :: "prefetch_func \<Rightarrow> addr \<Rightarrow> addr \<Rightarrow> nat \<Rightarrow> hint list" where
  "chunk_hints func ptr pre_ptr n = map (\<lambda>j. (func, pre_ptr + 64 * j, ptr + 64 * j)) [0..<n]"

lemma chunk_hints_Suc:
  "chunk_hints func ptr pre_ptr (Suc n) =
     (func, pre_ptr, ptr) # chunk_hints func (ptr_add ptr 8) (ptr_add pre_ptr 8) n"
  by (simp add: chunk_hints_def ptr_add_def upt_conv_Cons map_Suc_upt [symmetric] add.assoc
        del: upt_Suc)

lemma sum_eight:
  fixes f :: "nat \<Rightarrow> 64 word"
  shows "(\<Sum>k<8. f k) = f 0 + f 1 + f 2 + f 3 + f 4 + f 5 + f 6 + f 7"
proof -
  have "{..<8::nat} = {0, 1, 2, 3, 4, 5, 6, 7}" by auto
  then show ?thesis by (simp add: add.assoc)
qed

lemma verify_loop_step:
  "ptr < e \<Longrightarrow>
   verify_loop func h ptr pre e cs =
     (case verify_loop func h (ptr_add ptr 8) (ptr_add pre 8) e
             (cs + (\<Sum>k<8. h (ptr + 8 * k))) of
        (c, q, tr) \<Rightarrow> (c, q, (func, pre, ptr) # tr))"
  by (subst verify_loop.simps) (simp add: Let_def ptr_add_def sum_eight add.assoc)

lemma verify_loop_stop: "\<not> ptr < e \<Longrightarrow> verify_loop func h ptr pre e cs = (cs, pre, [])"
  by (subst verify_loop.simps) simp

lemma sum_chunk_split:
  fixes f :: "nat \<Rightarrow> 64 word"
  shows "(\<Sum>k<8 * Suc n. f k) = (\<Sum>k<8. f k) + (\<Sum>k<8 * n. f (8 + k))"
proof -
  have "(\<Sum>k=0..<8. f k) + (\<Sum>k=8..<8 + 8 * n. f k) = (\<Sum>k=0..<8 + 8 * n. f k)"
    by (rule sum.atLeastLessThan_concat) simp_all
  moreover have "(\<Sum>k=8..<8 + 8 * n. f k) = (\<Sum>k=0..<8 * n. f (8 + k))"
    using sum.shift_bounds_nat_ivl [of f 0 8 "8 * n"] by (simp add: add.commute)
  ultimately show ?thesis
    by (simp add: lessThan_atLeast0)
qed

lemma verify_loop_result:
  "nchunks ptr e = n \<Longrightarrow>
   verify_loop func h ptr pre e cs =
     (cs + (\<Sum>k<8 * n. h (ptr + 8 * k)), pre + 64 * n, chunk_hints func ptr pre n)"
proof (induction n arbitrary: ptr pre cs)
  case 0
  then show ?case
    by (simp add: verify_loop_stop [OF nchunks_zero] chunk_hints_def)
next
  case (Suc n)
  have lt: "ptr < e" by (rule nchunks_pos [OF Suc.prems])
  have shift: "(\<Sum>k<8 * n. h (ptr_add ptr 8 + 8 * k)) = (\<Sum>k<8 * n. h (ptr + 8 * (8 + k)))"
    by (simp add: ptr_add_def algebra_simps)
  show ?case
    unfolding verify_loop_step [OF lt] Suc.IH [OF nchunks_rec [OF Suc.prems]] chunk_hints_Suc
      sum_chunk_split [of "\<lambda>k. h (ptr + 8 * k)" n] shift
    by (simp add: ptr_add_def add.assoc)
qed

lemma read_loop_step:
  "ptr < e \<Longrightarrow>
   read_loop func h ptr pre e =
     (case read_loop func h (ptr_add ptr 8) (ptr_add pre 8) e of
        (q, tr) \<Rightarrow> (q, (func, pre, ptr) # tr))"
  by (subst read_loop.simps) simp

lemma read_loop_stop: "\<not> ptr < e \<Longrightarrow> read_loop func h ptr pre e = (pre, [])"
  by (subst read_loop.simps) simp

lemma read_loop_result:
  "nchunks ptr e = n \<Longrightarrow>
   read_loop func h ptr pre e = (pre + 64 * n, chunk_hints func ptr pre n)"
proof (induction n arbitrary: ptr pre)
  case 0
  then show ?case
    by (simp add: read_loop_stop [OF nchunks_zero] chunk_hints_def)
next
  case (Suc n)
  have lt: "ptr < e" by (rule nchunks_pos [OF Suc.prems])
  show ?case
    unfolding read_loop_step [OF lt] Suc.IH [OF nchunks_rec [OF Suc.prems]] chunk_hints_Suc
    by (simp add: ptr_add_def add.assoc)
qed

lemma STRESS_PREFETCH_LOOP_hints:
  "snd (snd (STRESS_PREFETCH_LOOP func verify h ptr pre e sane succ)) =
     chunk_hints func ptr pre (nchunks ptr e)"
  by (simp add: STRESS_PREFETCH_LOOP_def verify_loop_result [OF refl] read_loop_result [OF refl])

lemma STRESS_PREFETCH_LOOP_success:
  "fst (STRESS_PREFETCH_LOOP func verify h ptr pre e sane succ) =
     (succ \<and> (verify \<longrightarrow> (\<Sum>k<8 * nchunks ptr e. h (ptr + 8 * k)) = sane))"
  by (auto simp: STRESS_PREFETCH_LOOP_def verify_loop_result [OF refl] read_loop_result [OF refl])

lemma measured_pass_hints:
  "snd (snd (measured_pass b info m i sane h l3_data l3_data_end verify succ)) =
     chunk_hints (if offset (info ! i) = 0 then stress_prefetch_none else method_func b m)
       l3_data (l3_data + 8 * offset (info ! i)) (nchunks l3_data l3_data_end)"
  by (simp add: measured_pass_def Let_def STRESS_PREFETCH_LOOP_hints ptr_add_def)

lemma measured_pass_success:
  "fst (measured_pass b info m i sane h l3_data l3_data_end verify succ) =
     (succ \<and> (verify \<longrightarrow> (\<Sum>k<8 * nchunks l3_data l3_data_end. h (l3_data + 8 * k)) = sane))"
  by (simp add: measured_pass_def Let_def STRESS_PREFETCH_LOOP_success)

section \<open>The initial array\<close>

lemma length_init_prefetch_info: "length init_prefetch_info = 128"
  by (simp add: init_prefetch_info_def STRESS_PREFETCH_OFFSETS_def)

lemma nth_init_prefetch_info:
  "i < 128 \<Longrightarrow>
   init_prefetch_info ! i = \<lparr> offset = i * 64, count = 0, duration = 0, bytes = 0, rate = 0 \<rparr>"
  by (simp add: init_prefetch_info_def STRESS_PREFETCH_OFFSETS_def STRESS_CACHE_LINE_SIZE_def)

section \<open>The generated buffer and its checksum\<close>

lemma nwords_size: "(k < nwords p (p + sz)) = (8 * k < sz)"
  unfolding nwords_def by auto

lemma data_set_cells:
  assumes "stress_prefetch_data_set h p (p + sz) = (h', cs)" and "8 * k < sz"
  shows "h' (p + 8 * k) = pack (lcg (2 * k + 1)) (lcg (2 * k + 2))"
  using data_set_loop_cells [OF refl assms(1) [unfolded stress_prefetch_data_set_def], of k] assms(2)
  by (simp add: nwords_size lcg_from_seed del: lcg.simps lcg_from.simps)

lemma data_set_checksum:
  assumes "stress_prefetch_data_set h p e = (h', cs)"
  shows "cs = (\<Sum>k<nwords p e. h' (p + 8 * k))"
  using data_set_loop_checksum [OF refl assms [unfolded stress_prefetch_data_set_def]] by simp

lemma data_set_checksum_lcg:
  assumes "stress_prefetch_data_set h p (p + sz) = (h', cs)"
  shows "cs = (\<Sum>k<nwords 0 sz. pack (lcg (2 * k + 1)) (lcg (2 * k + 2)))"
proof -
  have n: "nwords p (p + sz) = nwords 0 sz" by (simp add: nwords_def)
  have "(\<Sum>k<nwords 0 sz. h' (p + 8 * k)) = (\<Sum>k<nwords 0 sz. pack (lcg (2 * k + 1)) (lcg (2 * k + 2)))"
  proof (rule sum.cong [OF refl])
    fix k assume "k \<in> {..<nwords 0 sz}"
    then have "8 * k < sz" using nwords_size [of k 0 sz] by simp
    then show "h' (p + 8 * k) = pack (lcg (2 * k + 1)) (lcg (2 * k + 2))"
      by (rule data_set_cells [OF assms])
  qed
  then show ?thesis using data_set_checksum [OF assms] n by simp
qed

text \<open>
  Claim C6. Generation is deterministic: whatever the mapping held before and wherever it
  lies, two runs over a buffer of the same size return the same checksum and leave the same
  word in every cell of the buffer. The word of cell \<open>k\<close> packs two consecutive outputs of the
  linear-congruential generator (multiplier 16843009, increment 826366247, seed 123456789),
  output \<open>2 * k + 1\<close> in its low 32 bits and output \<open>2 * k + 2\<close> in its high 32 bits, and the
  checksum is the wrap-around sum of the cells.
\<close>

theorem data_set_deterministic:
  assumes "stress_prefetch_data_set h1 p1 (p1 + sz) = (h1', c1)"
    and "stress_prefetch_data_set h2 p2 (p2 + sz) = (h2', c2)"
    and "8 * k < sz"
  shows "c1 = c2 \<and> h1' (p1 + 8 * k) = h2' (p2 + 8 * k) \<and>
         (ucast (h1' (p1 + 8 * k)) :: 32 word) = lcg (2 * k + 1) \<and>
         (ucast (drop_bit 32 (h1' (p1 + 8 * k))) :: 32 word) = lcg (2 * k + 2) \<and>
         c1 = (\<Sum>j<nwords p1 (p1 + sz). h1' (p1 + 8 * j))"
  using data_set_cells [OF assms(1) assms(3)] data_set_cells [OF assms(2) assms(3)]
    data_set_checksum_lcg [OF assms(1)] data_set_checksum_lcg [OF assms(2)]
    data_set_checksum [OF assms(1)]
  by (simp add: pack_low pack_high del: lcg.simps)

theorem data_set_deterministic_witness:
  "8 * 1 < (16::nat) \<and>
   (snd (stress_prefetch_data_set (\<lambda>_. 0) 0 (0 + 16)) =
      snd (stress_prefetch_data_set (\<lambda>_. 1) 4096 (4096 + 16)) \<and>
    fst (stress_prefetch_data_set (\<lambda>_. 0) 0 (0 + 16)) (0 + 8 * 1) =
      fst (stress_prefetch_data_set (\<lambda>_. 1) 4096 (4096 + 16)) (4096 + 8 * 1) \<and>
    (ucast (fst (stress_prefetch_data_set (\<lambda>_. 0) 0 (0 + 16)) (0 + 8 * 1)) :: 32 word) =
      lcg (2 * 1 + 1) \<and>
    (ucast (drop_bit 32 (fst (stress_prefetch_data_set (\<lambda>_. 0) 0 (0 + 16)) (0 + 8 * 1)))
       :: 32 word) = lcg (2 * 1 + 2) \<and>
    snd (stress_prefetch_data_set (\<lambda>_. 0) 0 (0 + 16)) =
      (\<Sum>j<nwords 0 (0 + 16). fst (stress_prefetch_data_set (\<lambda>_. 0) 0 (0 + 16)) (0 + 8 * j)))"
proof -
  have k: "8 * 1 < (16::nat)" by simp
  from data_set_deterministic [OF surjective_pairing surjective_pairing k,
      of "\<lambda>_. 0" 0 "\<lambda>_. 1" 4096]
  show ?thesis using k by blast
qed

lemma benchmark_success:
  "success (stress_prefetch_benchmark b m i sane l3_data l3_data_end verify clk st) =
     (success st \<and>
      (verify \<longrightarrow> (\<Sum>k<8 * nchunks l3_data l3_data_end. l3 st (l3_data + 8 * k)) = sane))"
  by (cases clk) (simp add: stress_prefetch_benchmark_def Let_def measured_pass_success)

text \<open>
  Claim C5. For a buffer of \<open>m\<close> chunks of 64 bytes, the wrap-around sum of the words of the
  generated buffer is the checksum the generator returns; a verifying pass over the buffer as
  generated computes that sum, so the macro leaves the success flag as it was, and so does a
  whole benchmark step, for every entry, method and prefetch distance.
\<close>

theorem checksum_round_trip:
  assumes "stress_prefetch_data_set h l3_data (l3_data + 64 * m) = (h', checksum_sane)"
  shows "(\<Sum>k<8 * m. h' (l3_data + 8 * k)) = checksum_sane \<and>
         fst (verify_loop func h' l3_data pre_ptr (l3_data + 64 * m) 0) = checksum_sane \<and>
         fst (STRESS_PREFETCH_LOOP func True h' l3_data pre_ptr (l3_data + 64 * m)
                checksum_sane succ) = succ \<and>
         success (stress_prefetch_benchmark b prefetch_method i checksum_sane l3_data
                    (l3_data + 64 * m) True clk (st\<lparr> l3 := h' \<rparr>)) = success st"
  using data_set_checksum [OF assms]
  by (simp add: nwords_multiple nchunks_multiple verify_loop_result [OF refl]
        STRESS_PREFETCH_LOOP_success benchmark_success)

theorem checksum_round_trip_witness:
  "success (stress_prefetch_benchmark x86_64_linux 0 0
      (snd (stress_prefetch_data_set (\<lambda>_. 0) 0 (0 + 64 * 64)))
      0 (0 + 64 * 64) True (0, 0, 0, 1)
      (\<lparr> prefetch_info = init_prefetch_info, total_count = 0, success = True, l3 = (\<lambda>_. 0) \<rparr>
        \<lparr> l3 := fst (stress_prefetch_data_set (\<lambda>_. 0) 0 (0 + 64 * 64)) \<rparr>))"
  using checksum_round_trip [OF surjective_pairing, of "\<lambda>_. 0" 0 64 stress_prefetch_none 0 True
      x86_64_linux 0 0 "(0, 0, 0, 1)"
      "\<lparr> prefetch_info = init_prefetch_info, total_count = 0, success = True, l3 = (\<lambda>_. 0) \<rparr>"]
  by simp

section \<open>The frame of one benchmark step\<close>

text \<open>
  Claim C10. One call of the benchmark with index \<open>i\<close> adds the buffer size to the bytes of
  entry \<open>i\<close>, the net measured time \<open>(t4 - t3) - (t2 - t1)\<close> to its duration and one to its
  count, and adds one to the total count; the success flag can be cleared but is never set;
  the offset and rate of entry \<open>i\<close>, every other entry and the buffer are as before (the
  checksum baseline is an argument passed by value). None of this depends on the outcome of
  the verification: a pass that finds a mismatch is accounted like any other.
\<close>

theorem benchmark_frame:
  assumes "i < length (prefetch_info st)"
  shows "let st' = stress_prefetch_benchmark b prefetch_method i checksum_sane l3_data
                     l3_data_end verify (t1, t2, t3, t4) st
         in length (prefetch_info st') = length (prefetch_info st) \<and>
            bytes (prefetch_info st' ! i) =
              bytes (prefetch_info st ! i) + real (l3_data_end - l3_data) \<and>
            duration (prefetch_info st' ! i) =
              duration (prefetch_info st ! i) + ((t4 - t3) - (t2 - t1)) \<and>
            count (prefetch_info st' ! i) = count (prefetch_info st ! i) + 1 \<and>
            offset (prefetch_info st' ! i) = offset (prefetch_info st ! i) \<and>
            rate (prefetch_info st' ! i) = rate (prefetch_info st ! i) \<and>
            (\<forall>j. j \<noteq> i \<longrightarrow> prefetch_info st' ! j = prefetch_info st ! j) \<and>
            total_count st' = total_count st + 1 \<and>
            (success st' \<longrightarrow> success st) \<and>
            l3 st' = l3 st"
  using assms
  by (simp add: Let_def stress_prefetch_benchmark_def measured_pass_success)

text \<open>
  The witness is a pass that fails: the buffer holds 1 in every cell, the baseline is 0. The
  flag is cleared and the statistics of entry 1 are updated all the same.
\<close>

theorem benchmark_frame_witness:
  "(1::nat) < length (prefetch_info
      \<lparr> prefetch_info = init_prefetch_info, total_count = 0, success = True, l3 = (\<lambda>_. 1) \<rparr>) \<and>
   (let st' = stress_prefetch_benchmark x86_64_linux 0 1 0 0 64 True (0, 1, 1, 5)
                \<lparr> prefetch_info = init_prefetch_info, total_count = 0, success = True,
                  l3 = (\<lambda>_. 1) \<rparr>
    in \<not> success st' \<and>
       bytes (prefetch_info st' ! 1) = 64 \<and>
       duration (prefetch_info st' ! 1) = 3 \<and>
       count (prefetch_info st' ! 1) = 1 \<and>
       total_count st' = 1 \<and>
       prefetch_info st' ! 0 = init_prefetch_info ! 0)"
  using benchmark_frame [of 1
      "\<lparr> prefetch_info = init_prefetch_info, total_count = 0, success = True, l3 = (\<lambda>_. 1) \<rparr>"
      x86_64_linux 0 0 0 64 True 0 1 1 5]
  by (simp add: Let_def length_init_prefetch_info nth_init_prefetch_info benchmark_success
        nchunks_def)

section \<open>What the selection loop computes\<close>

text \<open>
  \<open>rate_of e\<close> is the rate the loop assigns to an entry, \<open>set_rate\<close> the assignment. The loop
  changes nothing but the rates, and its result is described by \<open>select_loop_nth\<close> (the
  array) and \<open>select_loop_best\<close> (the invariant of \<open>best\<close> and \<open>best_rate\<close>).
\<close>

declare select_loop.simps [simp del]

definition rate_of :: "stress_prefetch_info_t \<Rightarrow> real" where
  "rate_of e = (if duration e > 0 then bytes e / duration e else 0)"

definition set_rate :: "stress_prefetch_info_t \<Rightarrow> stress_prefetch_info_t" where
  "set_rate e = e\<lparr> rate := rate_of e \<rparr>"

lemma rate_of_set_rate [simp]: "rate_of (set_rate e) = rate_of e"
  by (simp add: rate_of_def set_rate_def)

lemma rate_set_rate [simp]: "rate (set_rate e) = rate_of e"
  by (simp add: set_rate_def)

lemma select_loop_step:
  "i < length info \<Longrightarrow>
   select_loop i info best br =
     (if rate_of (info ! i) > br
      then select_loop (Suc i) (info[i := set_rate (info ! i)]) i (rate_of (info ! i))
      else select_loop (Suc i) (info[i := set_rate (info ! i)]) best br)"
  by (subst select_loop.simps) (simp add: Let_def rate_of_def set_rate_def)

lemma select_loop_stop: "\<not> i < length info \<Longrightarrow> select_loop i info best br = (info, best, br)"
  by (subst select_loop.simps) simp

lemma select_loop_length:
  "length info - i = n \<Longrightarrow> length (fst (select_loop i info best br)) = length info"
proof (induction n arbitrary: i info best br)
  case 0
  then show ?case by (simp add: select_loop_stop)
next
  case (Suc n)
  then have lt: "i < length info" and n: "length (info[i := set_rate (info ! i)]) - Suc i = n"
    by simp_all
  show ?case
    unfolding select_loop_step [OF lt] using Suc.IH [OF n] by simp
qed

lemma select_loop_nth:
  "length info - i = n \<Longrightarrow> j < length info \<Longrightarrow>
   fst (select_loop i info best br) ! j = (if i \<le> j then set_rate (info ! j) else info ! j)"
proof (induction n arbitrary: i info best br)
  case 0
  then show ?case by (simp add: select_loop_stop)
next
  case (Suc n)
  then have lt: "i < length info" and n: "length (info[i := set_rate (info ! i)]) - Suc i = n"
    and j: "j < length (info[i := set_rate (info ! i)])"
    by simp_all
  have ih: "fst (select_loop (Suc i) (info[i := set_rate (info ! i)]) best0 br0) ! j =
              (if Suc i \<le> j then set_rate (info[i := set_rate (info ! i)] ! j)
               else info[i := set_rate (info ! i)] ! j)" for best0 br0
    by (rule Suc.IH [OF n j])
  have "(Suc i \<le> j) = (i \<le> j \<and> j \<noteq> i)" by auto
  then show ?case
    unfolding select_loop_step [OF lt] using lt by (simp add: ih)
qed

lemma select_loop_best:
  "length info - i = n \<Longrightarrow> select_loop i info best br = (info', best', br') \<Longrightarrow>
   br \<le> br' \<and>
   (\<forall>j. i \<le> j \<and> j < length info \<longrightarrow> rate_of (info ! j) \<le> br') \<and>
   (best' = best \<and> br' = br \<or>
    i \<le> best' \<and> best' < length info \<and> rate_of (info ! best') = br' \<and> br < br' \<and>
    (\<forall>j. i \<le> j \<and> j < best' \<longrightarrow> rate_of (info ! j) < br'))"
proof (induction n arbitrary: i info best br)
  case 0
  then have "\<not> i < length info" by simp
  with "0.prems" show ?case
    by (simp add: select_loop_stop)
next
  case (Suc n)
  let ?info = "info[i := set_rate (info ! i)]"
  let ?r = "\<lambda>j. rate_of (info ! j)"
  from Suc.prems have lt: "i < length info" and n: "length ?info - Suc i = n"
    by simp_all
  have same: "rate_of (?info ! j) = ?r j" for j
    using lt by (cases "j = i") simp_all
  show ?case
  proof (cases "?r i > br")
    case True
    with Suc.prems(2) have rec: "select_loop (Suc i) ?info i (?r i) = (info', best', br')"
      by (simp add: select_loop_step [OF lt])
    from Suc.IH [OF n rec]
    have a: "?r i \<le> br'"
      and b: "\<And>j. Suc i \<le> j \<Longrightarrow> j < length info \<Longrightarrow> ?r j \<le> br'"
      and c: "best' = i \<and> br' = ?r i \<or>
              Suc i \<le> best' \<and> best' < length info \<and> ?r best' = br' \<and> ?r i < br' \<and>
              (\<forall>j. Suc i \<le> j \<and> j < best' \<longrightarrow> ?r j < br')"
      unfolding same length_list_update by blast+
    have g1: "br \<le> br'" using True a by simp
    have g2: "?r j \<le> br'" if "i \<le> j" "j < length info" for j
    proof (cases "j = i")
      case True then show ?thesis using a by simp
    next
      case False
      with that have "Suc i \<le> j" by simp
      then show ?thesis using that(2) by (rule b)
    qed
    have g3: "i \<le> best' \<and> best' < length info \<and> ?r best' = br' \<and> br < br' \<and>
              (\<forall>j. i \<le> j \<and> j < best' \<longrightarrow> ?r j < br')"
      using c
    proof
      assume "best' = i \<and> br' = ?r i"
      then show ?thesis using lt True by simp
    next
      assume h: "Suc i \<le> best' \<and> best' < length info \<and> ?r best' = br' \<and> ?r i < br' \<and>
              (\<forall>j. Suc i \<le> j \<and> j < best' \<longrightarrow> ?r j < br')"
      have "?r j < br'" if "i \<le> j" "j < best'" for j
      proof (cases "j = i")
        case True then show ?thesis using h by simp
      next
        case False
        with that have "Suc i \<le> j" by simp
        then show ?thesis using that h by blast
      qed
      then show ?thesis using h True by auto
    qed
    show ?thesis using g1 g2 g3 by blast
  next
    case False
    with Suc.prems(2) have rec: "select_loop (Suc i) ?info best br = (info', best', br')"
      by (simp add: select_loop_step [OF lt])
    from Suc.IH [OF n rec]
    have a: "br \<le> br'"
      and b: "\<And>j. Suc i \<le> j \<Longrightarrow> j < length info \<Longrightarrow> ?r j \<le> br'"
      and c: "best' = best \<and> br' = br \<or>
              Suc i \<le> best' \<and> best' < length info \<and> ?r best' = br' \<and> br < br' \<and>
              (\<forall>j. Suc i \<le> j \<and> j < best' \<longrightarrow> ?r j < br')"
      unfolding same length_list_update by blast+
    have g2: "?r j \<le> br'" if "i \<le> j" "j < length info" for j
    proof (cases "j = i")
      case True then show ?thesis using a False by simp
    next
      case False
      with that have "Suc i \<le> j" by simp
      then show ?thesis using that(2) by (rule b)
    qed
    have g3: "best' = best \<and> br' = br \<or>
              i \<le> best' \<and> best' < length info \<and> ?r best' = br' \<and> br < br' \<and>
              (\<forall>j. i \<le> j \<and> j < best' \<longrightarrow> ?r j < br')"
      using c
    proof
      assume "best' = best \<and> br' = br"
      then show ?thesis by simp
    next
      assume h: "Suc i \<le> best' \<and> best' < length info \<and> ?r best' = br' \<and> br < br' \<and>
              (\<forall>j. Suc i \<le> j \<and> j < best' \<longrightarrow> ?r j < br')"
      have "?r j < br'" if "i \<le> j" "j < best'" for j
      proof (cases "j = i")
        case True then show ?thesis using h False by simp
      next
        case False
        with that have "Suc i \<le> j" by simp
        then show ?thesis using that h by blast
      qed
      then show ?thesis using h by auto
    qed
    show ?thesis using a g2 g3 by blast
  qed
qed

section \<open>The rate check\<close>

lemma GB_pos: "0 < GB"
  by (simp add: GB_def)

lemma select_loop_result:
  "select_loop 0 info 0 0 = (fst (select_loop 0 info 0 0), fst (snd (select_loop 0 info 0 0)),
     snd (snd (select_loop 0 info 0 0)))"
  by simp

lemma select_loop_rate0:
  assumes "info \<noteq> []"
  shows "rate (fst (select_loop 0 info 0 0) ! 0) \<le> snd (snd (select_loop 0 info 0 0))"
proof -
  from assms have len: "0 < length info" by simp
  have "rate (fst (select_loop 0 info 0 0) ! 0) = rate_of (info ! 0)"
    by (simp add: select_loop_nth [OF refl len])
  moreover have "\<forall>j. 0 \<le> j \<and> j < length info \<longrightarrow>
                   rate_of (info ! j) \<le> snd (snd (select_loop 0 info 0 0))"
    by (rule conjunct1 [OF conjunct2 [OF select_loop_best [OF refl select_loop_result]]])
  then have "rate_of (info ! 0) \<le> snd (snd (select_loop 0 info 0 0))"
    using len by simp
  ultimately show ?thesis by simp
qed

lemma report_success:
  assumes "info \<noteq> []"
  shows "success_out (stress_prefetch_report verify check info succ) = succ"
  using select_loop_rate0 [OF assms] GB_pos
  by (simp add: stress_prefetch_report_def split_beta Let_def divide_less_cancel not_less)

text \<open>
  Claim C9. Entry 0 takes part in the maximum, so for every statistics array the best rate
  is at least the rate of entry 0. Both are divided by the same positive constant, so the
  condition of the sanity check, best rate below non-prefetch rate, is false whatever the
  flags are, and the check leaves the success flag as the run loop left it.
\<close>

theorem rate_check_unreachable:
  assumes "info \<noteq> []"
  shows "rate (fst (select_loop 0 info 0 0) ! 0) \<le> snd (snd (select_loop 0 info 0 0)) \<and>
         (let r = stress_prefetch_report verify check info succ
          in non_prefetch_rate r \<le> best_rate_out r \<and>
             \<not> (verify \<and> check \<and> best_rate_out r < non_prefetch_rate r) \<and>
             success_out r = succ)"
  using select_loop_rate0 [OF assms] GB_pos
  by (simp add: stress_prefetch_report_def split_beta Let_def divide_less_cancel
        divide_le_cancel not_less)

theorem rate_check_unreachable_witness:
  "[\<lparr> offset = 0, count = 1, duration = 1, bytes = 4096, rate = 0 \<rparr>,
    \<lparr> offset = 64, count = 1, duration = 2, bytes = 4096, rate = 0 \<rparr>] \<noteq> [] \<and>
   success_out (stress_prefetch_report True True
     [\<lparr> offset = 0, count = 1, duration = 1, bytes = 4096, rate = 0 \<rparr>,
      \<lparr> offset = 64, count = 1, duration = 2, bytes = 4096, rate = 0 \<rparr>] True)"
  using rate_check_unreachable [of
     "[\<lparr> offset = 0, count = 1, duration = 1, bytes = 4096, rate = 0 \<rparr>,
       \<lparr> offset = 64, count = 1, duration = 2, bytes = 4096, rate = 0 \<rparr>]" True True True]
  by (simp add: Let_def)

section \<open>The size of the working set\<close>

lemma DEFAULT_PREFETCH_L3_SIZE_value: "DEFAULT_PREFETCH_L3_SIZE = 4194304"
  by (simp add: DEFAULT_PREFETCH_L3_SIZE_def MB_def)

text \<open>
  Claim C8. With the size setting unset or 0 the resolved size is the answer of
  \<^verbatim>\<open>get_prefetch_L3_size\<close> and is not 0: it is the default of 4 MiB, or the nonzero size of
  the cache that the discovery returns for its maximal level; it is the default whenever
  the build is not for Linux, the discovery returns nothing, no cache is returned for the
  maximal level, or that cache has size 0.
\<close>

theorem resolved_size_never_zero:
  assumes "setting_prefetch_L3_size env = None \<or> setting_prefetch_L3_size env = Some 0"
  shows "resolve_l3_data_size b env = get_prefetch_L3_size b (cpu_cache_details env) \<and>
         resolve_l3_data_size b env \<noteq> 0 \<and>
         DEFAULT_PREFETCH_L3_SIZE = 4 * 1024 * 1024 \<and>
         (resolve_l3_data_size b env = DEFAULT_PREFETCH_L3_SIZE \<or>
          (\<exists>cpu_caches cache.
             linux b \<and> cpu_cache_details env = Some cpu_caches \<and>
             cache_get cpu_caches (max_level cpu_caches) = Some cache \<and>
             cache_size cache \<noteq> 0 \<and> resolve_l3_data_size b env = cache_size cache)) \<and>
         (\<not> linux b \<or> cpu_cache_details env = None \<or>
          (\<exists>cpu_caches. cpu_cache_details env = Some cpu_caches \<and>
             (cache_get cpu_caches (max_level cpu_caches) = None \<or>
              (\<exists>cache. cache_get cpu_caches (max_level cpu_caches) = Some cache \<and>
                 cache_size cache = 0)))
          \<longrightarrow> resolve_l3_data_size b env = DEFAULT_PREFETCH_L3_SIZE)"
proof -
  have r: "resolve_l3_data_size b env = get_prefetch_L3_size b (cpu_cache_details env)"
    using assms by (auto simp: resolve_l3_data_size_def)
  show ?thesis
    unfolding r
    by (auto simp: get_prefetch_L3_size_def Let_def DEFAULT_PREFETCH_L3_SIZE_value
          split: option.splits)
qed

theorem resolved_size_never_zero_witness:
  "(setting_prefetch_L3_size example_env = None \<or> setting_prefetch_L3_size example_env = Some 0) \<and>
   resolve_l3_data_size x86_64_linux example_env = 8388608 \<and>
   resolve_l3_data_size x86_64_linux (example_env\<lparr> cpu_cache_details := None \<rparr>) = 4194304"
  using resolved_size_never_zero [of example_env x86_64_linux]
    resolved_size_never_zero [of "example_env\<lparr> cpu_cache_details := None \<rparr>" x86_64_linux]
  by (simp add: example_env_def x86_64_linux_def get_prefetch_L3_size_def
        DEFAULT_PREFETCH_L3_SIZE_value)

section \<open>Skipping\<close>

text \<open>
  Claim C7. When the selected method is not available, or when the mapping fails, the
  stressor returns \<^verbatim>\<open>EXIT_NO_RESOURCE\<close>: it never sets the process state to
  \<^verbatim>\<open>STRESS_STATE_RUN\<close>, makes no benchmark call and does not return \<^verbatim>\<open>EXIT_FAILURE\<close>. With
  an unavailable method nothing at all happens before the return, not even the request for
  the mapping; with a failed mapping that request is the only event.
\<close>

theorem unavailable_is_skipped:
  assumes "selected_method env < length (prefetch_methods b (cpu_x86_has_sse env))"
    and "\<not> available (prefetch_methods b (cpu_x86_has_sse env) ! selected_method env) \<or>
         mmap_result env = None"
  shows "status (stress_prefetch b env) = EXIT_NO_RESOURCE \<and>
         status (stress_prefetch b env) \<noteq> EXIT_FAILURE \<and>
         Set_proc_state STRESS_STATE_RUN \<notin> set (events (stress_prefetch b env)) \<and>
         benchmark_calls (stress_prefetch b env) = 0 \<and>
         final_info (stress_prefetch b env) = [] \<and>
         events (stress_prefetch b env) =
           (if \<not> available (prefetch_methods b (cpu_x86_has_sse env) ! selected_method env)
            then []
            else [Mmap (l3_data_mmap_size_of (resolve_l3_data_size b env))])"
  using assms(2)
  by (auto simp: stress_prefetch_def selected_method_def Let_def split: option.splits)

theorem unavailable_is_skipped_witness:
  "selected_method example_env
     < length (prefetch_methods x86_64_linux (cpu_x86_has_sse example_env)) \<and>
   \<not> available (prefetch_methods x86_64_linux (cpu_x86_has_sse example_env) !
                 selected_method example_env) \<and>
   status (stress_prefetch x86_64_linux example_env) = EXIT_NO_RESOURCE \<and>
   events (stress_prefetch x86_64_linux example_env) = [] \<and>
   mmap_result (example_env\<lparr> cpu_x86_has_sse := True \<rparr>) = None \<and>
   status (stress_prefetch x86_64_linux (example_env\<lparr> cpu_x86_has_sse := True \<rparr>))
     = EXIT_NO_RESOURCE \<and>
   events (stress_prefetch x86_64_linux (example_env\<lparr> cpu_x86_has_sse := True \<rparr>))
     = [Mmap 8396800]"
  using unavailable_is_skipped [where b = x86_64_linux and env = example_env]
    unavailable_is_skipped [where b = x86_64_linux
      and env = "example_env\<lparr> cpu_x86_has_sse := True \<rparr>"]
  by (simp add: example_env_def x86_64_linux_def selected_method_def prefetch_methods_def
        resolve_l3_data_size_def get_prefetch_L3_size_def l3_data_mmap_size_of_def
        STRESS_PREFETCH_OFFSETS_def STRESS_CACHE_LINE_SIZE_def)

section \<open>The model with rounding and the exact one\<close>

text \<open>With the identity for \<open>rnd\<close>, the model with rounding is the exact model.\<close>

declare select_loop_fp.simps [simp del]

lemma benchmark_fp_exact:
  "stress_prefetch_benchmark_fp (\<lambda>x. x) b m i sane d e verify clk st =
     stress_prefetch_benchmark b m i sane d e verify clk st"
  by (cases clk)
     (simp add: stress_prefetch_benchmark_fp_def stress_prefetch_benchmark_def fadd_def fsub_def
        double_of_size_def)

lemma sweep_fp_exact:
  "sweep_fp (\<lambda>x. x) b m sane d e verify clk idxs st = sweep b m sane d e verify clk idxs st"
  by (induction idxs arbitrary: st) (simp_all add: benchmark_fp_exact Let_def)

lemma run_loop_fp_exact:
  "run_loop_fp (\<lambda>x. x) b m sane d e verify clk clks st =
     run_loop b m sane d e verify clk clks st"
  by (induction clks arbitrary: clk st) (simp_all add: sweep_fp_exact run_loop.simps Let_def)

lemma select_loop_fp_exact:
  "length info - i = n \<Longrightarrow>
   select_loop_fp (\<lambda>x. x) i info best br = select_loop i info best br"
proof (induction n arbitrary: i info best br)
  case 0
  then show ?case
    by (subst select_loop_fp.simps, subst select_loop.simps) simp
next
  case (Suc n)
  then have n: "length (info[i := x]) - Suc i = n" for x by simp
  show ?case
    by (subst select_loop_fp.simps, subst select_loop.simps)
       (simp add: Let_def fdiv_def Suc.IH [OF n])
qed

section \<open>What the selection loop computes in double arithmetic\<close>

text \<open>
  \<open>rate_of_fp rnd e\<close> is the rate the loop assigns to an entry. As in the exact model, the
  loop changes nothing but the rates (\<open>select_loop_fp_nth\<close>), and \<open>select_loop_fp_best\<close> is the
  invariant of \<open>best\<close> and \<open>best_rate\<close>.
\<close>

definition rate_of_fp :: "(real \<Rightarrow> real) \<Rightarrow> stress_prefetch_info_t \<Rightarrow> real" where
  "rate_of_fp rnd e = (if duration e > 0 then fdiv rnd (bytes e) (duration e) else 0)"

definition set_rate_fp :: "(real \<Rightarrow> real) \<Rightarrow> stress_prefetch_info_t \<Rightarrow> stress_prefetch_info_t" where
  "set_rate_fp rnd e = e\<lparr> rate := rate_of_fp rnd e \<rparr>"

lemma rate_of_set_rate_fp [simp]: "rate_of_fp rnd (set_rate_fp rnd e) = rate_of_fp rnd e"
  by (simp add: rate_of_fp_def set_rate_fp_def)

lemma rate_set_rate_fp [simp]: "rate (set_rate_fp rnd e) = rate_of_fp rnd e"
  by (simp add: set_rate_fp_def)

lemma select_loop_fp_step:
  "i < length info \<Longrightarrow>
   select_loop_fp rnd i info best br =
     (if rate_of_fp rnd (info ! i) > br
      then select_loop_fp rnd (Suc i) (info[i := set_rate_fp rnd (info ! i)]) i
             (rate_of_fp rnd (info ! i))
      else select_loop_fp rnd (Suc i) (info[i := set_rate_fp rnd (info ! i)]) best br)"
  by (subst select_loop_fp.simps) (simp add: Let_def rate_of_fp_def set_rate_fp_def)

lemma select_loop_fp_stop:
  "\<not> i < length info \<Longrightarrow> select_loop_fp rnd i info best br = (info, best, br)"
  by (subst select_loop_fp.simps) simp

lemma select_loop_fp_length:
  "length info - i = n \<Longrightarrow> length (fst (select_loop_fp rnd i info best br)) = length info"
proof (induction n arbitrary: i info best br)
  case 0
  then show ?case by (simp add: select_loop_fp_stop)
next
  case (Suc n)
  then have lt: "i < length info"
    and n: "length (info[i := set_rate_fp rnd (info ! i)]) - Suc i = n"
    by simp_all
  show ?case
    unfolding select_loop_fp_step [OF lt] using Suc.IH [OF n] by simp
qed

lemma select_loop_fp_nth:
  "length info - i = n \<Longrightarrow> j < length info \<Longrightarrow>
   fst (select_loop_fp rnd i info best br) ! j =
     (if i \<le> j then set_rate_fp rnd (info ! j) else info ! j)"
proof (induction n arbitrary: i info best br)
  case 0
  then show ?case by (simp add: select_loop_fp_stop)
next
  case (Suc n)
  then have lt: "i < length info"
    and n: "length (info[i := set_rate_fp rnd (info ! i)]) - Suc i = n"
    and j: "j < length (info[i := set_rate_fp rnd (info ! i)])"
    by simp_all
  have ih: "fst (select_loop_fp rnd (Suc i) (info[i := set_rate_fp rnd (info ! i)]) best0 br0) ! j =
              (if Suc i \<le> j then set_rate_fp rnd (info[i := set_rate_fp rnd (info ! i)] ! j)
               else info[i := set_rate_fp rnd (info ! i)] ! j)" for best0 br0
    by (rule Suc.IH [OF n j])
  have "(Suc i \<le> j) = (i \<le> j \<and> j \<noteq> i)" by auto
  then show ?case
    unfolding select_loop_fp_step [OF lt] using lt by (simp add: ih)
qed

lemma select_loop_fp_best:
  "length info - i = n \<Longrightarrow> select_loop_fp rnd i info best br = (info', best', br') \<Longrightarrow>
   br \<le> br' \<and>
   (\<forall>j. i \<le> j \<and> j < length info \<longrightarrow> rate_of_fp rnd (info ! j) \<le> br') \<and>
   (best' = best \<and> br' = br \<or>
    i \<le> best' \<and> best' < length info \<and> rate_of_fp rnd (info ! best') = br' \<and> br < br' \<and>
    (\<forall>j. i \<le> j \<and> j < best' \<longrightarrow> rate_of_fp rnd (info ! j) < br'))"
proof (induction n arbitrary: i info best br)
  case 0
  then have "\<not> i < length info" by simp
  with "0.prems" show ?case
    by (simp add: select_loop_fp_stop)
next
  case (Suc n)
  let ?info = "info[i := set_rate_fp rnd (info ! i)]"
  let ?r = "\<lambda>j. rate_of_fp rnd (info ! j)"
  from Suc.prems have lt: "i < length info" and n: "length ?info - Suc i = n"
    by simp_all
  have same: "rate_of_fp rnd (?info ! j) = ?r j" for j
    using lt by (cases "j = i") simp_all
  show ?case
  proof (cases "?r i > br")
    case True
    with Suc.prems(2) have rec: "select_loop_fp rnd (Suc i) ?info i (?r i) = (info', best', br')"
      by (simp add: select_loop_fp_step [OF lt])
    from Suc.IH [OF n rec]
    have a: "?r i \<le> br'"
      and b: "\<And>j. Suc i \<le> j \<Longrightarrow> j < length info \<Longrightarrow> ?r j \<le> br'"
      and c: "best' = i \<and> br' = ?r i \<or>
              Suc i \<le> best' \<and> best' < length info \<and> ?r best' = br' \<and> ?r i < br' \<and>
              (\<forall>j. Suc i \<le> j \<and> j < best' \<longrightarrow> ?r j < br')"
      unfolding same length_list_update by blast+
    have g1: "br \<le> br'" using True a by simp
    have g2: "?r j \<le> br'" if "i \<le> j" "j < length info" for j
    proof (cases "j = i")
      case True then show ?thesis using a by simp
    next
      case False
      with that have "Suc i \<le> j" by simp
      then show ?thesis using that(2) by (rule b)
    qed
    have g3: "i \<le> best' \<and> best' < length info \<and> ?r best' = br' \<and> br < br' \<and>
              (\<forall>j. i \<le> j \<and> j < best' \<longrightarrow> ?r j < br')"
      using c
    proof
      assume "best' = i \<and> br' = ?r i"
      then show ?thesis using lt True by simp
    next
      assume h: "Suc i \<le> best' \<and> best' < length info \<and> ?r best' = br' \<and> ?r i < br' \<and>
              (\<forall>j. Suc i \<le> j \<and> j < best' \<longrightarrow> ?r j < br')"
      have "?r j < br'" if "i \<le> j" "j < best'" for j
      proof (cases "j = i")
        case True then show ?thesis using h by simp
      next
        case False
        with that have "Suc i \<le> j" by simp
        then show ?thesis using that h by blast
      qed
      then show ?thesis using h True by auto
    qed
    show ?thesis using g1 g2 g3 by blast
  next
    case False
    with Suc.prems(2) have rec: "select_loop_fp rnd (Suc i) ?info best br = (info', best', br')"
      by (simp add: select_loop_fp_step [OF lt])
    from Suc.IH [OF n rec]
    have a: "br \<le> br'"
      and b: "\<And>j. Suc i \<le> j \<Longrightarrow> j < length info \<Longrightarrow> ?r j \<le> br'"
      and c: "best' = best \<and> br' = br \<or>
              Suc i \<le> best' \<and> best' < length info \<and> ?r best' = br' \<and> br < br' \<and>
              (\<forall>j. Suc i \<le> j \<and> j < best' \<longrightarrow> ?r j < br')"
      unfolding same length_list_update by blast+
    have g2: "?r j \<le> br'" if "i \<le> j" "j < length info" for j
    proof (cases "j = i")
      case True then show ?thesis using a False by simp
    next
      case False
      with that have "Suc i \<le> j" by simp
      then show ?thesis using that(2) by (rule b)
    qed
    have g3: "best' = best \<and> br' = br \<or>
              i \<le> best' \<and> best' < length info \<and> ?r best' = br' \<and> br < br' \<and>
              (\<forall>j. i \<le> j \<and> j < best' \<longrightarrow> ?r j < br')"
      using c
    proof
      assume "best' = best \<and> br' = br"
      then show ?thesis by simp
    next
      assume h: "Suc i \<le> best' \<and> best' < length info \<and> ?r best' = br' \<and> br < br' \<and>
              (\<forall>j. Suc i \<le> j \<and> j < best' \<longrightarrow> ?r j < br')"
      have "?r j < br'" if "i \<le> j" "j < best'" for j
      proof (cases "j = i")
        case True then show ?thesis using h False by simp
      next
        case False
        with that have "Suc i \<le> j" by simp
        then show ?thesis using that h by blast
      qed
      then show ?thesis using h by auto
    qed
    show ?thesis using a g2 g3 by blast
  qed
qed

section \<open>Invariants of the run loop\<close>

text \<open>
  \<open>account_fp rnd sz clk e\<close> is entry \<open>e\<close> after one benchmark step over a buffer of \<open>sz\<close> bytes
  with the clock readings \<open>clk\<close>.
\<close>

definition account_fp ::
  "(real \<Rightarrow> real) \<Rightarrow> nat \<Rightarrow> clock \<Rightarrow> stress_prefetch_info_t \<Rightarrow> stress_prefetch_info_t" where
  "account_fp rnd sz clk e =
     (case clk of (t1, t2, t3, t4) \<Rightarrow>
        e\<lparr> bytes := fadd rnd (bytes e) (double_of_size rnd sz),
           duration := fadd rnd (duration e) (fsub rnd (fsub rnd t4 t3) (fsub rnd t2 t1)),
           count := count e + 1 \<rparr>)"

lemma benchmark_fp_info:
  "prefetch_info (stress_prefetch_benchmark_fp rnd b m i sane d e verify clk st) =
     (prefetch_info st)[i := account_fp rnd (e - d) clk (prefetch_info st ! i)]"
  by (cases clk) (simp add: stress_prefetch_benchmark_fp_def Let_def account_fp_def)

lemma benchmark_fp_l3:
  "l3 (stress_prefetch_benchmark_fp rnd b m i sane d e verify clk st) = l3 st"
  by (cases clk) (simp add: stress_prefetch_benchmark_fp_def Let_def)

lemma benchmark_fp_total_count:
  "total_count (stress_prefetch_benchmark_fp rnd b m i sane d e verify clk st) =
     total_count st + 1"
  by (cases clk) (simp add: stress_prefetch_benchmark_fp_def Let_def)

lemma benchmark_fp_success:
  "success (stress_prefetch_benchmark_fp rnd b m i sane l3_data l3_data_end verify clk st) =
     (success st \<and>
      (verify \<longrightarrow> (\<Sum>k<8 * nchunks l3_data l3_data_end. l3 st (l3_data + 8 * k)) = sane))"
  by (cases clk) (simp add: stress_prefetch_benchmark_fp_def Let_def measured_pass_success)

lemma count_no_wrap:
  fixes c :: "64 word"
  assumes "unat c \<le> k" and "Suc k < 2 ^ 64"
  shows "c + 1 \<noteq> 0" and "unat (c + 1) \<le> Suc k"
proof -
  have "unat c + unat (1 :: 64 word) < 2 ^ LENGTH(64)"
    using assms by simp
  then have u: "unat (c + 1) = unat c + 1"
    by (simp add: unat_add_lem [THEN iffD1])
  then show "unat (c + 1) \<le> Suc k" using assms by simp
  from u have "unat (c + 1) \<noteq> 0" by simp
  then show "c + 1 \<noteq> 0" by (metis unat_0)
qed

text \<open>
  The invariant of an entry while at most \<open>k\<close> sweeps have started: its bytes are not
  negative, an entry that was never benchmarked has no duration, and its count is at most
  \<open>k\<close>, so that below \<open>2 ^ 64\<close> sweeps the 64-bit count does not wrap.
\<close>

definition entry_ok :: "nat \<Rightarrow> stress_prefetch_info_t \<Rightarrow> bool" where
  "entry_ok k e = (0 \<le> bytes e \<and> (count e = 0 \<longrightarrow> duration e = 0) \<and> unat (count e) \<le> k)"

lemma entry_ok_mono: "entry_ok k e \<Longrightarrow> k \<le> k' \<Longrightarrow> entry_ok k' e"
  by (auto simp: entry_ok_def)

lemma rnd_nonneg: "mono rnd \<Longrightarrow> rnd 0 = 0 \<Longrightarrow> 0 \<le> x \<Longrightarrow> 0 \<le> rnd x"
  by (metis monoD)

lemma entry_ok_account_fp:
  assumes "mono rnd" and "rnd 0 = 0" and "entry_ok k e" and "Suc k < 2 ^ 64"
  shows "entry_ok (Suc k) (account_fp rnd sz clk e)" and "count (account_fp rnd sz clk e) \<noteq> 0"
proof -
  have s: "0 \<le> double_of_size rnd sz"
    unfolding double_of_size_def by (rule rnd_nonneg [OF assms(1,2)]) simp
  have "0 \<le> bytes e" using assms(3) by (simp add: entry_ok_def)
  with s have b: "0 \<le> fadd rnd (bytes e) (double_of_size rnd sz)"
    unfolding fadd_def by (intro rnd_nonneg [OF assms(1,2)]) simp
  have u: "unat (count e) \<le> k" using assms(3) by (simp add: entry_ok_def)
  show "entry_ok (Suc k) (account_fp rnd sz clk e)"
    using b count_no_wrap [OF u assms(4)]
    by (cases clk) (simp add: entry_ok_def account_fp_def)
  show "count (account_fp rnd sz clk e) \<noteq> 0"
    using count_no_wrap [OF u assms(4)]
    by (cases clk) (simp add: account_fp_def)
qed

lemma sweep_fp_length:
  "length (prefetch_info (sweep_fp rnd b m sane d e verify clk idxs st)) =
     length (prefetch_info st)"
  by (induction idxs arbitrary: st) (simp_all add: Let_def benchmark_fp_info)

lemma sweep_fp_other:
  "j \<notin> set idxs \<Longrightarrow>
   prefetch_info (sweep_fp rnd b m sane d e verify clk idxs st) ! j = prefetch_info st ! j"
  by (induction idxs arbitrary: st) (auto simp: Let_def benchmark_fp_info)

lemma sweep_fp_inv:
  assumes "mono rnd" and "rnd 0 = 0" and "Suc k < 2 ^ 64"
    and "\<forall>j<length (prefetch_info st). entry_ok (Suc k) (prefetch_info st ! j)"
    and "\<forall>j\<in>set idxs. j < length (prefetch_info st) \<and> entry_ok k (prefetch_info st ! j)"
    and "distinct idxs"
  shows "\<forall>j<length (prefetch_info st).
           entry_ok (Suc k) (prefetch_info (sweep_fp rnd b m sane d e verify clk idxs st) ! j)"
  using assms(4-6)
proof (induction idxs arbitrary: st)
  case Nil
  then show ?case by simp
next
  case (Cons i idxs)
  let ?st = "stress_prefetch_benchmark_fp rnd b m i sane d e verify (clk i) st"
  have len: "length (prefetch_info ?st) = length (prefetch_info st)"
    by (simp add: benchmark_fp_info)
  have i: "i < length (prefetch_info st)" "entry_ok k (prefetch_info st ! i)"
    using Cons.prems(2) by simp_all
  have all: "\<forall>j<length (prefetch_info ?st). entry_ok (Suc k) (prefetch_info ?st ! j)"
  proof (intro allI impI)
    fix j assume j: "j < length (prefetch_info ?st)"
    show "entry_ok (Suc k) (prefetch_info ?st ! j)"
    proof (cases "j = i")
      case True
      then show ?thesis
        using entry_ok_account_fp(1) [OF assms(1,2) i(2) assms(3), of "e - d" "clk i"] i(1)
        by (simp add: benchmark_fp_info)
    next
      case False
      then show ?thesis
        using Cons.prems(1) j by (simp add: benchmark_fp_info)
    qed
  qed
  have rest: "\<forall>j\<in>set idxs. j < length (prefetch_info ?st) \<and> entry_ok k (prefetch_info ?st ! j)"
    using Cons.prems(2,3) by (auto simp: benchmark_fp_info nth_list_update)
  have dist: "distinct idxs" using Cons.prems(3) by simp
  show ?case
  proof (cases "success ?st")
    case True
    then show ?thesis
      using Cons.IH [OF all rest dist] by (simp add: Let_def len)
  next
    case False
    then show ?thesis
      using all by (simp add: Let_def len)
  qed
qed

lemma sweep_fp_first:
  assumes "mono rnd" and "rnd 0 = 0" and "Suc k < 2 ^ 64" and "0 < length (prefetch_info st)"
    and "entry_ok k (prefetch_info st ! 0)"
  shows "count (prefetch_info
                  (sweep_fp rnd b m sane d e verify clk [0..<length (prefetch_info st)] st) ! 0)
           \<noteq> 0"
proof -
  let ?st = "stress_prefetch_benchmark_fp rnd b m 0 sane d e verify (clk 0) st"
  have upt: "[0..<length (prefetch_info st)] = 0 # [1..<length (prefetch_info st)]"
    using assms(4) by (simp add: upt_conv_Cons)
  have c: "count (prefetch_info ?st ! 0) \<noteq> 0"
    using entry_ok_account_fp(2) [OF assms(1,2,5,3)] assms(4) by (simp add: benchmark_fp_info)
  have "prefetch_info (sweep_fp rnd b m sane d e verify clk [1..<length (prefetch_info st)] ?st) ! 0 =
          prefetch_info ?st ! 0"
    by (rule sweep_fp_other) simp
  with c show ?thesis
    unfolding upt by (simp add: Let_def)
qed

definition run_inv :: "nat \<Rightarrow> bench_state \<Rightarrow> bool" where
  "run_inv k st = (\<forall>j<length (prefetch_info st). entry_ok k (prefetch_info st ! j))"

lemma sweep_fp_run_inv:
  assumes "mono rnd" and "rnd 0 = 0" and "run_inv k st" and "Suc k < 2 ^ 64"
  shows "run_inv (Suc k)
           (sweep_fp rnd b m sane d e verify clk [0..<length (prefetch_info st)] st)"
proof -
  have a: "\<forall>j<length (prefetch_info st). entry_ok (Suc k) (prefetch_info st ! j)"
    using assms(3) by (auto simp: run_inv_def intro: entry_ok_mono)
  have b: "\<forall>j\<in>set [0..<length (prefetch_info st)].
             j < length (prefetch_info st) \<and> entry_ok k (prefetch_info st ! j)"
    using assms(3) by (simp add: run_inv_def)
  show ?thesis
    unfolding run_inv_def sweep_fp_length
    by (rule sweep_fp_inv [OF assms(1,2,4) a b]) simp
qed

lemma run_loop_fp_inv:
  assumes "mono rnd" and "rnd 0 = 0"
    and "run_inv k st" and "k + Suc (length clks) < 2 ^ 64" and "0 < length (prefetch_info st)"
  shows "run_inv (k + Suc (length clks)) (run_loop_fp rnd b m sane d e verify clk clks st) \<and>
         length (prefetch_info (run_loop_fp rnd b m sane d e verify clk clks st)) =
           length (prefetch_info st) \<and>
         count (prefetch_info (run_loop_fp rnd b m sane d e verify clk clks st) ! 0) \<noteq> 0"
  using assms(3-5)
proof (induction clks arbitrary: clk st k)
  case Nil
  then have k: "Suc k < 2 ^ 64" by simp
  have "entry_ok k (prefetch_info st ! 0)"
    using Nil.prems(1,3) by (simp add: run_inv_def)
  then show ?case
    using sweep_fp_run_inv [OF assms(1,2) Nil.prems(1) k]
      sweep_fp_first [OF assms(1,2) k Nil.prems(3)]
    by (simp add: sweep_fp_length)
next
  case (Cons clk' clks)
  let ?st = "sweep_fp rnd b m sane d e verify clk [0..<length (prefetch_info st)] st"
  from Cons.prems(2) have k: "Suc k < 2 ^ 64" by simp
  have e0: "entry_ok k (prefetch_info st ! 0)"
    using Cons.prems(1,3) by (simp add: run_inv_def)
  have inv: "run_inv (Suc k) ?st" by (rule sweep_fp_run_inv [OF assms(1,2) Cons.prems(1) k])
  have len: "length (prefetch_info ?st) = length (prefetch_info st)"
    by (simp add: sweep_fp_length)
  show ?case
  proof (cases "success ?st")
    case True
    have "Suc k + Suc (length clks) < 2 ^ 64" using Cons.prems(2) by simp
    moreover have "0 < length (prefetch_info ?st)" using Cons.prems(3) len by simp
    ultimately show ?thesis
      using Cons.IH [OF inv, of clk'] True by (simp add: Let_def len)
  next
    case False
    have "run_inv (k + Suc (length (clk' # clks))) ?st"
      using inv by (auto simp: run_inv_def intro: entry_ok_mono)
    then show ?thesis
      using False sweep_fp_first [OF assms(1,2) k Cons.prems(3) e0] by (simp add: Let_def len)
  qed
qed

lemma run_inv_init:
  "run_inv 0 \<lparr> prefetch_info = init_prefetch_info, total_count = 0, success = True, l3 = h \<rparr>"
  by (simp add: run_inv_def entry_ok_def length_init_prefetch_info nth_init_prefetch_info)

lemma rate_of_fp_nonneg:
  "mono rnd \<Longrightarrow> rnd 0 = 0 \<Longrightarrow> 0 \<le> bytes e \<Longrightarrow> 0 \<le> rate_of_fp rnd e"
  by (simp add: rate_of_fp_def fdiv_def rnd_nonneg)

lemma rate_of_fp_pos_count: "entry_ok k e \<Longrightarrow> 0 < rate_of_fp rnd e \<Longrightarrow> count e \<noteq> 0"
  by (auto simp: rate_of_fp_def entry_ok_def split: if_splits)

lemma select_loop_fp_result:
  "select_loop_fp rnd 0 info 0 0 =
     (fst (select_loop_fp rnd 0 info 0 0), fst (snd (select_loop_fp rnd 0 info 0 0)),
      snd (snd (select_loop_fp rnd 0 info 0 0)))"
  by simp

lemma select_loop_fp_fields:
  assumes "j < length info"
  shows "rate (fst (select_loop_fp rnd 0 info 0 0) ! j) = rate_of_fp rnd (info ! j)"
    and "duration (fst (select_loop_fp rnd 0 info 0 0) ! j) = duration (info ! j)"
    and "bytes (fst (select_loop_fp rnd 0 info 0 0) ! j) = bytes (info ! j)"
    and "count (fst (select_loop_fp rnd 0 info 0 0) ! j) = count (info ! j)"
    and "offset (fst (select_loop_fp rnd 0 info 0 0) ! j) = offset (info ! j)"
  by (simp_all add: select_loop_fp_nth [OF refl assms] set_rate_fp_def)

lemma select_loop_fp_first_max:
  assumes len: "0 < length info"
    and nonneg: "\<forall>j<length info. 0 \<le> rate_of_fp rnd (info ! j)"
  shows "fst (snd (select_loop_fp rnd 0 info 0 0)) < length info \<and>
         snd (snd (select_loop_fp rnd 0 info 0 0)) =
           rate_of_fp rnd (info ! fst (snd (select_loop_fp rnd 0 info 0 0))) \<and>
         (\<forall>j<fst (snd (select_loop_fp rnd 0 info 0 0)).
            rate_of_fp rnd (info ! j)
              < rate_of_fp rnd (info ! fst (snd (select_loop_fp rnd 0 info 0 0)))) \<and>
         (\<forall>j<length info.
            rate_of_fp rnd (info ! j)
              \<le> rate_of_fp rnd (info ! fst (snd (select_loop_fp rnd 0 info 0 0)))) \<and>
         (fst (snd (select_loop_fp rnd 0 info 0 0)) = 0 \<or>
          0 < rate_of_fp rnd (info ! fst (snd (select_loop_fp rnd 0 info 0 0))))"
proof -
  let ?best = "fst (snd (select_loop_fp rnd 0 info 0 0))"
  let ?br = "snd (snd (select_loop_fp rnd 0 info 0 0))"
  let ?r = "\<lambda>j. rate_of_fp rnd (info ! j)"
  note inv = select_loop_fp_best [OF refl select_loop_fp_result, of rnd info]
  have le: "\<forall>j. 0 \<le> j \<and> j < length info \<longrightarrow> ?r j \<le> ?br"
    by (rule conjunct1 [OF conjunct2 [OF inv]])
  have alt: "?best = 0 \<and> ?br = 0 \<or>
             0 \<le> ?best \<and> ?best < length info \<and> ?r ?best = ?br \<and> 0 < ?br \<and>
             (\<forall>j. 0 \<le> j \<and> j < ?best \<longrightarrow> ?r j < ?br)"
    by (rule conjunct2 [OF conjunct2 [OF inv]])
  from alt show ?thesis
  proof
    assume z: "?best = 0 \<and> ?br = 0"
    have "?r 0 \<le> 0" using le len z by simp
    moreover have "0 \<le> ?r 0" using nonneg len by simp
    ultimately have "?r 0 = 0" by simp
    with z le len show ?thesis by simp
  next
    assume "0 \<le> ?best \<and> ?best < length info \<and> ?r ?best = ?br \<and> 0 < ?br \<and>
             (\<forall>j. 0 \<le> j \<and> j < ?best \<longrightarrow> ?r j < ?br)"
    with le show ?thesis by simp
  qed
qed

section \<open>The best offset after a run\<close>

text \<open>
  Claim C4, in double arithmetic: every operation on doubles is rounded by \<open>rnd\<close>, of which
  only monotonicity and \<open>rnd 0 = 0\<close> are assumed. After the run loop, started from the
  initial array and stopped by the harness or by a failure after fewer than \<open>2 ^ 64\<close> sweeps
  (so that no 64-bit count has wrapped), the selection loop leaves bytes, durations, counts
  and offsets alone and sets the rate of every entry to the double quotient of bytes by
  duration when the duration is positive and to 0 otherwise. \<open>best\<close> is the first entry with
  the highest rate: its rate is above the rate of every earlier entry and not below the rate
  of any entry, and \<open>best_rate\<close> is that rate. The entry selected has been benchmarked at
  least once; in particular an entry with a zero count is not selected when some entry has
  a nonzero one.
\<close>

theorem best_offset_selection:
  assumes "mono rnd" and "rnd 0 = 0" and "Suc (length clks) < 2 ^ 64"
  shows "let st = run_loop_fp rnd b m sane l3_data l3_data_end verify clk clks
                    \<lparr> prefetch_info = init_prefetch_info, total_count = 0, success = True,
                      l3 = h \<rparr>;
             stats = prefetch_info st;
             info' = fst (select_loop_fp rnd 0 stats 0 0);
             best = fst (snd (select_loop_fp rnd 0 stats 0 0));
             best_rate = snd (snd (select_loop_fp rnd 0 stats 0 0))
         in length stats = STRESS_PREFETCH_OFFSETS \<and>
            length info' = STRESS_PREFETCH_OFFSETS \<and>
            (\<forall>i<STRESS_PREFETCH_OFFSETS.
               rate (info' ! i) =
                 (if duration (stats ! i) > 0
                  then fdiv rnd (bytes (stats ! i)) (duration (stats ! i)) else 0) \<and>
               duration (info' ! i) = duration (stats ! i) \<and>
               bytes (info' ! i) = bytes (stats ! i) \<and>
               count (info' ! i) = count (stats ! i) \<and>
               offset (info' ! i) = offset (stats ! i)) \<and>
            best < STRESS_PREFETCH_OFFSETS \<and>
            best_rate = rate (info' ! best) \<and>
            (\<forall>j<best. rate (info' ! j) < rate (info' ! best)) \<and>
            (\<forall>j<STRESS_PREFETCH_OFFSETS. rate (info' ! j) \<le> rate (info' ! best)) \<and>
            count (info' ! best) \<noteq> 0 \<and>
            ((\<exists>j<STRESS_PREFETCH_OFFSETS. count (info' ! j) \<noteq> 0) \<longrightarrow> count (info' ! best) \<noteq> 0)"
proof -
  define st0 where
    "st0 = \<lparr> prefetch_info = init_prefetch_info, total_count = 0, success = True, l3 = h \<rparr>"
  define stats where
    "stats = prefetch_info (run_loop_fp rnd b m sane l3_data l3_data_end verify clk clks st0)"
  let ?best = "fst (snd (select_loop_fp rnd 0 stats 0 0))"
  have len0: "0 < length (prefetch_info st0)"
    by (simp add: st0_def length_init_prefetch_info)
  have inv0: "run_inv 0 st0"
    unfolding st0_def by (rule run_inv_init)
  have bound: "0 + Suc (length clks) < 2 ^ 64" using assms(3) by simp
  note run = run_loop_fp_inv [OF assms(1,2) inv0 bound len0,
      of b m sane l3_data l3_data_end verify clk, folded stats_def]
  have len: "length stats = 128"
    using run by (simp add: st0_def length_init_prefetch_info)
  have ok: "\<And>j. j < 128 \<Longrightarrow> entry_ok (Suc (length clks)) (stats ! j)"
    using run len by (simp add: run_inv_def stats_def)
  have c0: "count (stats ! 0) \<noteq> 0"
    using run by simp
  have nonneg: "\<forall>j<length stats. 0 \<le> rate_of_fp rnd (stats ! j)"
    using ok len by (simp add: rate_of_fp_nonneg [OF assms(1,2)] entry_ok_def)
  have pos: "0 < length stats" using len by simp
  note sel = select_loop_fp_first_max [OF pos nonneg]
  have best: "?best < 128" using sel len by simp
  have cb: "count (stats ! ?best) \<noteq> 0"
  proof (cases "?best = 0")
    case True
    with c0 show ?thesis by simp
  next
    case False
    with sel have "0 < rate_of_fp rnd (stats ! ?best)" by blast
    with ok [OF best] show ?thesis by (rule rate_of_fp_pos_count)
  qed
  have fields: "\<And>j. j < 128 \<Longrightarrow>
      rate (fst (select_loop_fp rnd 0 stats 0 0) ! j) = rate_of_fp rnd (stats ! j) \<and>
      duration (fst (select_loop_fp rnd 0 stats 0 0) ! j) = duration (stats ! j) \<and>
      bytes (fst (select_loop_fp rnd 0 stats 0 0) ! j) = bytes (stats ! j) \<and>
      count (fst (select_loop_fp rnd 0 stats 0 0) ! j) = count (stats ! j) \<and>
      offset (fst (select_loop_fp rnd 0 stats 0 0) ! j) = offset (stats ! j)"
    using select_loop_fp_fields [where info = stats and rnd = rnd] len by simp
  have lt: "\<And>j. j < ?best \<Longrightarrow> j < 128" using best by simp
  show ?thesis
    unfolding Let_def st0_def [symmetric] stats_def [symmetric] STRESS_PREFETCH_OFFSETS_def
    using len sel best cb fields lt
    by (simp add: select_loop_fp_length [OF refl] rate_of_fp_def)
qed

text \<open>
  A run for the witness: one sweep over a buffer of 64 bytes, rounding down to integers, in
  which the pass of entry 0 takes 14 seconds net and the pass of every other entry 13. The
  exact quotient of entry 1 is above the one of entry 0, but every rounded rate is 4, so
  the first entry is selected.
\<close>

lemma sweep_fp_effect:
  assumes "verify \<longrightarrow> (\<Sum>k<8 * nchunks d e. l3 st (d + 8 * k)) = sane"
    and "success st" and "distinct idxs" and "\<forall>i\<in>set idxs. i < length (prefetch_info st)"
  shows "success (sweep_fp rnd b m sane d e verify clk idxs st) \<and>
         (\<forall>j<length (prefetch_info st).
            prefetch_info (sweep_fp rnd b m sane d e verify clk idxs st) ! j =
              (if j \<in> set idxs then account_fp rnd (e - d) (clk j) (prefetch_info st ! j)
               else prefetch_info st ! j))"
  using assms
proof (induction idxs arbitrary: st)
  case Nil
  then show ?case by simp
next
  case (Cons i idxs)
  let ?st = "stress_prefetch_benchmark_fp rnd b m i sane d e verify (clk i) st"
  have s: "success ?st"
    using Cons.prems(1,2) by (simp add: benchmark_fp_success)
  have v: "verify \<longrightarrow> (\<Sum>k<8 * nchunks d e. l3 ?st (d + 8 * k)) = sane"
    using Cons.prems(1) by (simp add: benchmark_fp_l3)
  have len: "length (prefetch_info ?st) = length (prefetch_info st)"
    by (simp add: benchmark_fp_info)
  have d: "distinct idxs" and ni: "i \<notin> set idxs" and i: "i < length (prefetch_info st)"
    using Cons.prems(3,4) by simp_all
  have r: "\<forall>i\<in>set idxs. i < length (prefetch_info ?st)"
    using Cons.prems(4) by (simp add: len)
  note ih = Cons.IH [OF v s d r, unfolded len]
  have "prefetch_info (sweep_fp rnd b m sane d e verify clk idxs ?st) ! j =
          (if j \<in> set (i # idxs) then account_fp rnd (e - d) (clk j) (prefetch_info st ! j)
           else prefetch_info st ! j)" if "j < length (prefetch_info st)" for j
  proof (cases "j = i")
    case True
    then show ?thesis using ih that ni i by (simp add: benchmark_fp_info)
  next
    case False
    then show ?thesis using ih that by (simp add: benchmark_fp_info)
  qed
  then show ?case
    using s ih by (simp add: Let_def)
qed

lemma round_down_mono: "mono round_down"
  by (simp add: mono_def round_down_def floor_mono)

lemma round_down_zero: "round_down 0 = 0"
  by (simp add: round_down_def)

declare run_loop_fp.simps [simp del]

lemma tie_run_stats:
  assumes "stress_prefetch_data_set (\<lambda>_. 0) 65536 65600 = (h, sane)"
  defines "st \<equiv> run_loop_fp round_down x86_64_linux 3 sane 65536 65600 True
                  (\<lambda>i. (0, 0, 0, if i = 0 then 14 else 13)) []
                  \<lparr> prefetch_info = init_prefetch_info, total_count = 0, success = True, l3 = h \<rparr>"
  shows "length (prefetch_info st) = 128"
    and "\<And>j. j < 128 \<Longrightarrow> prefetch_info st ! j =
           \<lparr> offset = j * 64, count = 1, duration = (if j = 0 then 14 else 13), bytes = 64,
             rate = 0 \<rparr>"
proof -
  let ?st0 = "\<lparr> prefetch_info = init_prefetch_info, total_count = 0, success = True, l3 = h \<rparr>"
  have v: "True \<longrightarrow> (\<Sum>k<8 * nchunks 65536 65600. l3 ?st0 (65536 + 8 * k)) = sane"
    using data_set_checksum [OF assms(1)] by (simp add: nchunks_def nwords_def)
  have eff: "success st \<and>
         (\<forall>j<length (prefetch_info ?st0).
            prefetch_info st ! j =
              (if j \<in> set [0..<128]
               then account_fp round_down (65600 - 65536) (0, 0, 0, if j = 0 then 14 else 13)
                      (prefetch_info ?st0 ! j)
               else prefetch_info ?st0 ! j))"
    unfolding st_def run_loop_fp.simps
    using sweep_fp_effect [OF v, of "[0..<128]" round_down x86_64_linux 3
        "\<lambda>i. (0, 0, 0, if i = 0 then 14 else 13)"]
    by (simp add: length_init_prefetch_info)
  show "length (prefetch_info st) = 128"
    unfolding st_def run_loop_fp.simps
    by (simp add: sweep_fp_length length_init_prefetch_info)
  fix j :: nat assume "j < 128"
  with eff show "prefetch_info st ! j =
           \<lparr> offset = j * 64, count = 1, duration = (if j = 0 then 14 else 13), bytes = 64,
             rate = 0 \<rparr>"
    by (simp add: length_init_prefetch_info nth_init_prefetch_info account_fp_def fadd_def
          fsub_def double_of_size_def round_down_def)
qed

theorem best_offset_selection_witness:
  "mono round_down \<and> round_down 0 = 0 \<and>
   Suc (length ([] :: (nat \<Rightarrow> clock) list)) < 2 ^ 64 \<and>
   (let stats = prefetch_info (run_loop_fp round_down x86_64_linux 3
                   (snd (stress_prefetch_data_set (\<lambda>_. 0) 65536 65600)) 65536 65600 True
                   (\<lambda>i. (0, 0, 0, if i = 0 then 14 else 13)) []
                   \<lparr> prefetch_info = init_prefetch_info, total_count = 0, success = True,
                     l3 = fst (stress_prefetch_data_set (\<lambda>_. 0) 65536 65600) \<rparr>)
    in fst (snd (select_loop_fp round_down 0 stats 0 0)) = 0 \<and>
       snd (snd (select_loop_fp round_down 0 stats 0 0)) = 4 \<and>
       rate (fst (select_loop_fp round_down 0 stats 0 0) ! 1) = 4 \<and>
       bytes (stats ! 1) / duration (stats ! 1) > bytes (stats ! 0) / duration (stats ! 0) \<and>
       count (stats ! 0) = 1)"
proof -
  let ?h = "fst (stress_prefetch_data_set (\<lambda>_. 0) 65536 65600)"
  let ?sane = "snd (stress_prefetch_data_set (\<lambda>_. 0) 65536 65600)"
  let ?stats = "prefetch_info (run_loop_fp round_down x86_64_linux 3 ?sane 65536 65600 True
                   (\<lambda>i. (0, 0, 0, if i = 0 then 14 else 13)) []
                   \<lparr> prefetch_info = init_prefetch_info, total_count = 0, success = True,
                     l3 = ?h \<rparr>)"
  let ?best = "fst (snd (select_loop_fp round_down 0 ?stats 0 0))"
  let ?info = "fst (select_loop_fp round_down 0 ?stats 0 0)"
  have k: "Suc (length ([] :: (nat \<Rightarrow> clock) list)) < 2 ^ 64" by simp
  note stats = tie_run_stats [OF surjective_pairing]
  note sel = best_offset_selection [OF round_down_mono round_down_zero k,
      of x86_64_linux 3 ?sane 65536 65600 True
      "\<lambda>i. (0, 0, 0, if i = 0 then 14 else 13)" ?h, unfolded Let_def STRESS_PREFETCH_OFFSETS_def]
  have best: "?best < 128" using sel by blast
  have rates: "rate (?info ! j) = 4" if "j < 128" for j
  proof -
    have "rate (?info ! j) = rate_of_fp round_down (?stats ! j)"
      using select_loop_fp_fields(1) [of j ?stats round_down] stats(1) that by simp
    also have "\<dots> = 4"
      unfolding stats(2) [OF that] by (simp add: rate_of_fp_def fdiv_def round_down_def)
    finally show ?thesis .
  qed
  have "?best = 0"
  proof (rule ccontr)
    assume "?best \<noteq> 0"
    then have "0 < ?best" by simp
    moreover have "\<forall>j<?best. rate (?info ! j) < rate (?info ! ?best)" using sel by blast
    ultimately have "rate (?info ! 0) < rate (?info ! ?best)" by blast
    then show False using rates [OF best] rates [of 0] by simp
  qed
  moreover have "snd (snd (select_loop_fp round_down 0 ?stats 0 0)) = rate (?info ! ?best)"
    using sel by blast
  ultimately show ?thesis
    using k rates [of 0] rates [of 1] stats(2) [of 0] stats(2) [of 1]
      round_down_mono round_down_zero
    by (simp add: Let_def)
qed

section \<open>A run of one sweep, evaluated\<close>

text \<open>
  In the exact model, \<open>account sz clk e\<close> is entry \<open>e\<close> after one benchmark step over a buffer
  of \<open>sz\<close> bytes with the clock readings \<open>clk\<close>. When every verification succeeds, a sweep
  accounts one step to each index it visits.
\<close>

definition net_time :: "clock \<Rightarrow> real" where
  "net_time clk = (case clk of (t1, t2, t3, t4) \<Rightarrow> (t4 - t3) - (t2 - t1))"

definition account :: "nat \<Rightarrow> clock \<Rightarrow> stress_prefetch_info_t \<Rightarrow> stress_prefetch_info_t" where
  "account sz clk e =
     e\<lparr> bytes := bytes e + real sz, duration := duration e + net_time clk, count := count e + 1 \<rparr>"

lemma benchmark_info:
  "prefetch_info (stress_prefetch_benchmark b m i sane d e verify clk st) =
     (prefetch_info st)[i := account (e - d) clk (prefetch_info st ! i)]"
  by (cases clk) (simp add: stress_prefetch_benchmark_def Let_def account_def net_time_def)

lemma benchmark_l3: "l3 (stress_prefetch_benchmark b m i sane d e verify clk st) = l3 st"
  by (cases clk) (simp add: stress_prefetch_benchmark_def Let_def)

lemma benchmark_total_count:
  "total_count (stress_prefetch_benchmark b m i sane d e verify clk st) = total_count st + 1"
  by (cases clk) (simp add: stress_prefetch_benchmark_def Let_def)

lemma sweep_length:
  "length (prefetch_info (sweep b m sane d e verify clk idxs st)) = length (prefetch_info st)"
  by (induction idxs arbitrary: st) (simp_all add: Let_def benchmark_info)

lemma select_loop_fields:
  assumes "j < length info"
  shows "rate (fst (select_loop 0 info 0 0) ! j) = rate_of (info ! j)"
    and "duration (fst (select_loop 0 info 0 0) ! j) = duration (info ! j)"
    and "bytes (fst (select_loop 0 info 0 0) ! j) = bytes (info ! j)"
    and "count (fst (select_loop 0 info 0 0) ! j) = count (info ! j)"
    and "offset (fst (select_loop 0 info 0 0) ! j) = offset (info ! j)"
  by (simp_all add: select_loop_nth [OF refl assms] set_rate_def)

lemma sweep_effect:
  assumes "verify \<longrightarrow> (\<Sum>k<8 * nchunks d e. l3 st (d + 8 * k)) = sane"
    and "success st" and "distinct idxs" and "\<forall>i\<in>set idxs. i < length (prefetch_info st)"
  shows "success (sweep b m sane d e verify clk idxs st) \<and>
         total_count (sweep b m sane d e verify clk idxs st) = total_count st + of_nat (length idxs) \<and>
         (\<forall>j<length (prefetch_info st).
            prefetch_info (sweep b m sane d e verify clk idxs st) ! j =
              (if j \<in> set idxs then account (e - d) (clk j) (prefetch_info st ! j)
               else prefetch_info st ! j))"
  using assms
proof (induction idxs arbitrary: st)
  case Nil
  then show ?case by simp
next
  case (Cons i idxs)
  let ?st = "stress_prefetch_benchmark b m i sane d e verify (clk i) st"
  have s: "success ?st"
    using Cons.prems(1,2) by (simp add: benchmark_success)
  have v: "verify \<longrightarrow> (\<Sum>k<8 * nchunks d e. l3 ?st (d + 8 * k)) = sane"
    using Cons.prems(1) by (simp add: benchmark_l3)
  have len: "length (prefetch_info ?st) = length (prefetch_info st)"
    by (simp add: benchmark_info)
  have d: "distinct idxs" and ni: "i \<notin> set idxs" and i: "i < length (prefetch_info st)"
    using Cons.prems(3,4) by simp_all
  have r: "\<forall>i\<in>set idxs. i < length (prefetch_info ?st)"
    using Cons.prems(4) by (simp add: len)
  note ih = Cons.IH [OF v s d r, unfolded len]
  have "prefetch_info (sweep b m sane d e verify clk idxs ?st) ! j =
          (if j \<in> set (i # idxs) then account (e - d) (clk j) (prefetch_info st ! j)
           else prefetch_info st ! j)" if "j < length (prefetch_info st)" for j
  proof (cases "j = i")
    case True
    then show ?thesis using ih that ni i by (simp add: benchmark_info)
  next
    case False
    then show ?thesis using ih that by (simp add: benchmark_info)
  qed
  then show ?case
    using s ih by (simp add: Let_def benchmark_total_count)
qed

declare run_loop.simps [simp del]

lemma failing_env_stats:
  assumes "stress_prefetch_data_set (\<lambda>_. 0) 65536 69632 = (h, sane)"
  defines "st \<equiv> run_loop x86_64_linux 3 sane 65536 69632 True
                  (\<lambda>i. (0, 0, 0, if i = 0 then 1 else 2)) []
                  \<lparr> prefetch_info = init_prefetch_info, total_count = 0, success = True, l3 = h \<rparr>"
  shows "success st" and "total_count st = 128" and "length (prefetch_info st) = 128"
    and "\<And>j. j < 128 \<Longrightarrow> prefetch_info st ! j =
           \<lparr> offset = j * 64, count = 1, duration = (if j = 0 then 1 else 2), bytes = 4096,
             rate = 0 \<rparr>"
proof -
  let ?st0 = "\<lparr> prefetch_info = init_prefetch_info, total_count = 0, success = True, l3 = h \<rparr>"
  have v: "True \<longrightarrow> (\<Sum>k<8 * nchunks 65536 69632. l3 ?st0 (65536 + 8 * k)) = sane"
    using data_set_checksum [OF assms(1)] by (simp add: nchunks_def nwords_def)
  have eff: "success st \<and> total_count st = total_count ?st0 + of_nat (length [0..<128]) \<and>
         (\<forall>j<length (prefetch_info ?st0).
            prefetch_info st ! j =
              (if j \<in> set [0..<128]
               then account (69632 - 65536) (0, 0, 0, if j = 0 then 1 else 2)
                      (prefetch_info ?st0 ! j)
               else prefetch_info ?st0 ! j))"
    unfolding st_def run_loop.simps
    using sweep_effect [OF v, of "[0..<128]" x86_64_linux 3
        "\<lambda>i. (0, 0, 0, if i = 0 then 1 else 2)"]
    by (simp add: length_init_prefetch_info)
  from eff show "success st" by simp
  from eff show "total_count st = 128" by simp
  show "length (prefetch_info st) = 128"
    unfolding st_def run_loop.simps by (simp add: sweep_length length_init_prefetch_info)
  fix j :: nat assume "j < 128"
  with eff show "prefetch_info st ! j =
           \<lparr> offset = j * 64, count = 1, duration = (if j = 0 then 1 else 2), bytes = 4096,
             rate = 0 \<rparr>"
    by (simp add: length_init_prefetch_info nth_init_prefetch_info account_def net_time_def)
qed

text \<open>
  Claim C1, evaluated at that run. The rate of entry 0 (no prefetch) is 4096 bytes per
  second and the rate of each of the 127 prefetching entries is 2048, verification is on
  and the rate check applies (x86-64, and the method is flagged), yet the run returns
  \<^verbatim>\<open>EXIT_SUCCESS\<close>: entry 0 itself is the best entry, so the check compares its rate with
  itself.
\<close>

theorem rate_check_misses:
  "status (stress_prefetch x86_64_linux failing_env) = EXIT_SUCCESS \<and>
   map rate (final_info (stress_prefetch x86_64_linux failing_env)) = 4096 # replicate 127 2048 \<and>
   benchmark_calls (stress_prefetch x86_64_linux failing_env) = 128"
proof -
  obtain h sane where ds: "stress_prefetch_data_set (\<lambda>_. 0) 65536 69632 = (h, sane)"
    by (cases "stress_prefetch_data_set (\<lambda>_. 0) 65536 69632") simp
  note stats = failing_env_stats [OF ds]
  let ?st = "run_loop x86_64_linux 3 sane 65536 69632 True
                  (\<lambda>i. (0, 0, 0, if i = 0 then 1 else 2)) []
                  \<lparr> prefetch_info = init_prefetch_info, total_count = 0, success = True, l3 = h \<rparr>"
  let ?r = "stress_prefetch_report True True (prefetch_info ?st) (success ?st)"
  have ne: "prefetch_info ?st \<noteq> []" using stats(3) by auto
  have run: "stress_prefetch x86_64_linux failing_env =
               \<lparr> status = (if success_out ?r then EXIT_SUCCESS else EXIT_FAILURE),
                 events = [Mmap 12288, Set_proc_state STRESS_STATE_RUN,
                           Metrics_set 0 (non_prefetch_rate ?r), Metrics_set 1 (best_rate_out ?r),
                           Set_proc_state STRESS_STATE_DEINIT, Munmap 12288],
                 final_info = info_out ?r,
                 benchmark_calls = total_count ?st \<rparr>"
    using ds
    by (simp add: stress_prefetch_def failing_env_def x86_64_linux_def selected_method_def
          prefetch_methods_def resolve_l3_data_size_def l3_data_mmap_size_of_def
          STRESS_PREFETCH_OFFSETS_def STRESS_CACHE_LINE_SIZE_def Let_def
          STRESS_PREFETCH_X86_PREFETCHT0_def)
  have out: "info_out ?r = fst (select_loop 0 (prefetch_info ?st) 0 0)"
    by (simp add: stress_prefetch_report_def split_beta Let_def)
  have rates: "map rate (info_out ?r) = 4096 # replicate 127 2048"
  proof (rule nth_equalityI)
    show "length (map rate (info_out ?r)) = length (4096 # replicate 127 (2048::real))"
      by (simp add: out select_loop_length [OF refl] stats(3))
  next
    fix j assume "j < length (map rate (info_out ?r))"
    then have j: "j < 128" by (simp add: out select_loop_length [OF refl] stats(3))
    then have "rate (info_out ?r ! j) = (if j = 0 then 4096 else 2048)"
      using select_loop_fields(1) [of j "prefetch_info ?st"] stats(3) stats(4) [OF j]
      by (simp add: out rate_of_def)
    then show "map rate (info_out ?r) ! j = (4096 # replicate 127 2048) ! j"
      using j by (simp add: out select_loop_length [OF refl] stats(3) nth_Cons')
  qed
  show ?thesis
    unfolding run using rates stats(1,2) by (simp add: report_success [OF ne])
qed

section \<open>Where the hints point\<close>

text \<open>
  Every hint of the measured pass of entry \<open>i\<close> is issued \<open>8 * offset\<close> bytes ahead of the read
  position of its chunk, since \<^verbatim>\<open>pre_ptr\<close> is \<^verbatim>\<open>l3_data + prefetch_info[i].offset\<close> on a pointer
  to 64-bit words; the read positions are the multiples of 64 below the size of the buffer.
\<close>

lemma nchunks_size: "(j < nchunks p (p + sz)) = (64 * j < sz)"
  unfolding nchunks_def by auto

lemma measured_pass_distance:
  assumes "(f, pre, p) \<in> set (snd (snd (measured_pass b info m i sane h l3_data
                                         (l3_data + sz) verify succ)))"
  shows "pre = p + 8 * offset (info ! i) \<and> l3_data \<le> p \<and> p < l3_data + sz \<and>
         f = (if offset (info ! i) = 0 then stress_prefetch_none else method_func b m)"
  using assms
  by (auto simp: measured_pass_hints chunk_hints_def nchunks_size)

text \<open>
  Claim C2, evaluated at entry 1 over a buffer of two chunks mapped at 65536. The recorded
  offset of the entry is 64, and both hints are issued 512 bytes ahead of the read position
  of their chunk, not 64.
\<close>

theorem hint_distance_entry_1:
  "offset (init_prefetch_info ! 1) = 64 \<and>
   snd (snd (measured_pass x86_64_linux init_prefetch_info STRESS_PREFETCH_BUILTIN 1 0 (\<lambda>_. 0)
               65536 (65536 + 128) True True)) =
     [(stress_prefetch_builtin, 65536 + 512, 65536), (stress_prefetch_builtin, 65600 + 512, 65600)]"
  by (simp add: measured_pass_hints nth_init_prefetch_info chunk_hints_def nchunks_def
        method_func_def STRESS_PREFETCH_BUILTIN_def upt_rec)

text \<open>
  Claim C3 fails as stated. With a buffer of 4096 bytes, the least size that can be
  configured, the offset of entry 127 is 8128 and so not below the size of the buffer; and
  the first hint of that entry is issued at address \<open>65536 + 65024\<close>, beyond the end of the
  mapping of \<open>4096 + 8192\<close> bytes at 65536.
\<close>

theorem offsets_within_buffer_counterexample:
  "\<not> (\<forall>i<STRESS_PREFETCH_OFFSETS. offset (init_prefetch_info ! i) < 4096) \<and>
   \<not> (\<forall>i<STRESS_PREFETCH_OFFSETS.
        \<forall>x\<in>set (snd (snd (measured_pass x86_64_linux init_prefetch_info STRESS_PREFETCH_BUILTIN i
                              0 (\<lambda>_. 0) 65536 (65536 + 4096) True True))).
          65536 \<le> fst (snd x) \<and> fst (snd x) < 65536 + l3_data_mmap_size_of 4096)"
proof
  have "\<not> offset (init_prefetch_info ! 127) < 4096"
    by (simp add: nth_init_prefetch_info)
  then show "\<not> (\<forall>i<STRESS_PREFETCH_OFFSETS. offset (init_prefetch_info ! i) < 4096)"
    by (auto simp: STRESS_PREFETCH_OFFSETS_def intro!: exI [where x = 127])
next
  let ?hints = "snd (snd (measured_pass x86_64_linux init_prefetch_info STRESS_PREFETCH_BUILTIN 127
                              0 (\<lambda>_. 0) 65536 (65536 + 4096) True True))"
  have m: "(stress_prefetch_builtin, 130560, 65536) \<in> set ?hints"
    unfolding measured_pass_hints chunk_hints_def
    by (simp add: nth_init_prefetch_info nchunks_def method_func_def STRESS_PREFETCH_BUILTIN_def
          image_iff)
  have far: "\<not> (130560 < 65536 + l3_data_mmap_size_of 4096)"
    by (simp add: l3_data_mmap_size_of_def STRESS_PREFETCH_OFFSETS_def STRESS_CACHE_LINE_SIZE_def)
  show "\<not> (\<forall>i<STRESS_PREFETCH_OFFSETS.
        \<forall>x\<in>set (snd (snd (measured_pass x86_64_linux init_prefetch_info STRESS_PREFETCH_BUILTIN i
                              0 (\<lambda>_. 0) 65536 (65536 + 4096) True True))).
          65536 \<le> fst (snd x) \<and> fst (snd x) < 65536 + l3_data_mmap_size_of 4096)"
  proof
    assume all: "\<forall>i<STRESS_PREFETCH_OFFSETS.
        \<forall>x\<in>set (snd (snd (measured_pass x86_64_linux init_prefetch_info STRESS_PREFETCH_BUILTIN i
                              0 (\<lambda>_. 0) 65536 (65536 + 4096) True True))).
          65536 \<le> fst (snd x) \<and> fst (snd x) < 65536 + l3_data_mmap_size_of 4096"
    have "127 < STRESS_PREFETCH_OFFSETS" by (simp add: STRESS_PREFETCH_OFFSETS_def)
    with all have "\<forall>x\<in>set ?hints.
          65536 \<le> fst (snd x) \<and> fst (snd x) < 65536 + l3_data_mmap_size_of 4096"
      by blast
    with m have "fst (snd (stress_prefetch_builtin, 130560::nat, 65536::nat))
                   < 65536 + l3_data_mmap_size_of 4096"
      by blast
    with far show False by simp
  qed
qed

text \<open>
  Claim C3, amended. The offset of entry \<open>i\<close> is \<open>i * 64\<close> and lies in \<open>[0, 8192)\<close>, the length
  of the padding, hence below the size of the buffer whenever that size is at least 8192.
  The mapping is the buffer and 8192 bytes of padding, so for every entry and every read
  position of the measured pass, the read position lies in the buffer and the address at
  the recorded offset ahead of it lies in the mapping.
\<close>

theorem offsets_within_padding:
  assumes "i < STRESS_PREFETCH_OFFSETS"
    and "(f, pre, p) \<in> set (snd (snd (measured_pass b init_prefetch_info m i sane h l3_data
                                         (l3_data + l3_data_size) verify succ)))"
  shows "offset (init_prefetch_info ! i) = i * STRESS_CACHE_LINE_SIZE \<and>
         offset (init_prefetch_info ! i) < STRESS_PREFETCH_OFFSETS * STRESS_CACHE_LINE_SIZE \<and>
         (STRESS_PREFETCH_OFFSETS * STRESS_CACHE_LINE_SIZE \<le> l3_data_size \<longrightarrow>
            offset (init_prefetch_info ! i) < l3_data_size) \<and>
         l3_data \<le> p \<and> p < l3_data + l3_data_size \<and>
         p + offset (init_prefetch_info ! i) < l3_data + l3_data_mmap_size_of l3_data_size"
  using assms(1) measured_pass_distance [OF assms(2)]
  by (simp add: nth_init_prefetch_info l3_data_mmap_size_of_def STRESS_PREFETCH_OFFSETS_def
        STRESS_CACHE_LINE_SIZE_def)

theorem offsets_within_padding_witness:
  "127 < STRESS_PREFETCH_OFFSETS \<and>
   (stress_prefetch_builtin, 130560, 65536) \<in>
     set (snd (snd (measured_pass x86_64_linux init_prefetch_info STRESS_PREFETCH_BUILTIN 127 0
                      (\<lambda>_. 0) 65536 (65536 + 4096) True True))) \<and>
   offset (init_prefetch_info ! 127) = 8128 \<and>
   65536 + offset (init_prefetch_info ! 127) < 65536 + l3_data_mmap_size_of 4096"
proof -
  have i: "127 < STRESS_PREFETCH_OFFSETS" by (simp add: STRESS_PREFETCH_OFFSETS_def)
  have m: "(stress_prefetch_builtin, 130560, 65536) \<in>
     set (snd (snd (measured_pass x86_64_linux init_prefetch_info STRESS_PREFETCH_BUILTIN 127 0
                      (\<lambda>_. 0) 65536 (65536 + 4096) True True)))"
    unfolding measured_pass_hints chunk_hints_def
    by (simp add: nth_init_prefetch_info nchunks_def method_func_def STRESS_PREFETCH_BUILTIN_def
          image_iff)
  show ?thesis
    using i m offsets_within_padding [OF i m]
    by (simp add: STRESS_CACHE_LINE_SIZE_def)
qed

end
